(* ===== verification/Todo_Prelude.thy ===== *)
theory Todo_Prelude
  imports Complex_Main "HOL-Library.Multiset" "HOL-Library.Word"
begin

text \<open>
  Shared vocabulary of the development.  The application mutates JavaScript arrays
  with \<open>Array.prototype.splice\<close> and searches them with \<open>Array.prototype.indexOf\<close>;
  both are modelled here once, on HOL lists, together with the list lemmas every
  component theory uses.  Object references (JavaScript object identity) are natural
  numbers indexing a heap list, see theory \<open>Task_Store\<close>.
\<close>

named_theorems splice_simps "equations for the splice and indexOf models"

type_synonym ref = nat

subsection \<open>Array splice and indexOf\<close>

text \<open>
  \<open>xs.splice(i, 1)\<close> removes the element at \<open>i\<close>; \<open>xs.splice(i, 0, x)\<close> inserts
  \<open>x\<close> before position \<open>i\<close>.  Both are only called with a non-negative start; a start
  beyond the end is clamped to the length, which is what \<open>take\<close>/\<open>drop\<close> do.
\<close>

definition remove_at :: "nat \<Rightarrow> 'a list \<Rightarrow> 'a list" where
  "remove_at i xs = take i xs @ drop (Suc i) xs"

definition insert_at :: "nat \<Rightarrow> 'a \<Rightarrow> 'a list \<Rightarrow> 'a list" where
  "insert_at i x xs = take i xs @ x # drop i xs"

text \<open>\<open>xs.indexOf(x)\<close>: the first position holding \<open>x\<close> (strict equality, i.e.
  reference identity for objects), or \<open>-1\<close>.\<close>

fun index_of :: "'a list \<Rightarrow> 'a \<Rightarrow> int" where
  "index_of [] x = -1"
| "index_of (y # ys) x =
     (if y = x then 0 else (let i = index_of ys x in if i = -1 then -1 else i + 1))"

subsection \<open>Lemmas\<close>

lemma length_remove_at [splice_simps]:
  "i < length xs \<Longrightarrow> length (remove_at i xs) = length xs - 1"
  by (simp add: remove_at_def)

lemma length_insert_at [splice_simps]:
  "length (insert_at i x xs) = Suc (length xs)"
  by (simp add: insert_at_def)

lemma mset_remove_at [splice_simps]:
  "i < length xs \<Longrightarrow> mset xs = add_mset (xs ! i) (mset (remove_at i xs))"
proof -
  assume i: "i < length xs"
  then have "xs = take i xs @ xs ! i # drop (Suc i) xs"
    by (simp add: id_take_nth_drop)
  then have "mset xs = mset (take i xs @ xs ! i # drop (Suc i) xs)"
    by (rule arg_cong)
  then show ?thesis
    by (simp add: remove_at_def)
qed

lemma mset_insert_at [splice_simps]:
  "mset (insert_at i x xs) = add_mset x (mset xs)"
proof -
  have "mset (insert_at i x xs) = add_mset x (mset (take i xs) + mset (drop i xs))"
    by (simp add: insert_at_def)
  also have "mset (take i xs) + mset (drop i xs) = mset xs"
    by (metis append_take_drop_id mset_append)
  finally show ?thesis .
qed

lemma set_insert_at [splice_simps]:
  "set (insert_at i x xs) = insert x (set xs)"
  using mset_insert_at [of i x xs] by (metis set_mset_add_mset_insert set_mset_mset)

lemma set_remove_at_subset:
  "set (remove_at i xs) \<subseteq> set xs"
  by (auto simp: remove_at_def dest: in_set_takeD in_set_dropD)

lemma nth_insert_at [splice_simps]:
  "i \<le> length xs \<Longrightarrow> insert_at i x xs ! i = x"
  by (simp add: insert_at_def nth_append)

lemma nth_remove_at:
  "i < length xs \<Longrightarrow> k < length xs - 1 \<Longrightarrow>
     remove_at i xs ! k = (if k < i then xs ! k else xs ! Suc k)"
  by (simp add: remove_at_def nth_append min_def)

lemma nth_insert_at_gen:
  "i \<le> length xs \<Longrightarrow> k \<le> length xs \<Longrightarrow>
     insert_at i x xs ! k = (if k < i then xs ! k else if k = i then x else xs ! (k - 1))"
  by (auto simp: insert_at_def nth_append min_def nth_Cons split: nat.split
      intro!: arg_cong [where f = "(!) xs"])

lemma insert_at_remove_at_same:
  "i < length xs \<Longrightarrow> insert_at i (xs ! i) (remove_at i xs) = xs"
  by (simp add: insert_at_def remove_at_def id_take_nth_drop [symmetric] min_def)

lemma distinct_remove_at:
  "distinct xs \<Longrightarrow> distinct (remove_at i xs)"
  by (simp add: remove_at_def set_take_disj_set_drop_if_distinct)

lemma distinct_insert_at [splice_simps]:
  "distinct (insert_at i x xs) \<longleftrightarrow> x \<notin> set xs \<and> distinct xs"
proof -
  have "distinct (insert_at i x xs) \<longleftrightarrow> distinct (x # xs)"
    by (rule mset_eq_imp_distinct_iff) (simp add: mset_insert_at)
  then show ?thesis
    by simp
qed

lemma index_of_ge: "-1 \<le> index_of xs x"
  by (induction xs) (auto simp: Let_def)

lemma index_of_absent [splice_simps]:
  "index_of xs x = -1 \<longleftrightarrow> x \<notin> set xs"
proof (induction xs)
  case Nil
  then show ?case by simp
next
  case (Cons y ys)
  have "index_of ys x + 1 \<noteq> -1"
    using index_of_ge [of ys x] by arith
  with Cons.IH show ?case
    by (auto simp: Let_def)
qed

lemma index_of_present:
  "x \<in> set xs \<Longrightarrow> 0 \<le> index_of xs x \<and> nat (index_of xs x) < length xs
     \<and> xs ! nat (index_of xs x) = x \<and> x \<notin> set (take (nat (index_of xs x)) xs)"
proof (induction xs)
  case Nil
  then show ?case by simp
next
  case (Cons y ys)
  show ?case
  proof (cases "y = x")
    case True
    then show ?thesis by simp
  next
    case False
    with Cons.prems have x: "x \<in> set ys" by simp
    with Cons.IH have ih: "0 \<le> index_of ys x \<and> nat (index_of ys x) < length ys
        \<and> ys ! nat (index_of ys x) = x \<and> x \<notin> set (take (nat (index_of ys x)) ys)"
      by blast
    then have ne: "index_of ys x \<noteq> -1" by simp
    have eq: "nat (index_of ys x + 1) = Suc (nat (index_of ys x))"
      using ih by (simp add: Suc_nat_eq_nat_zadd1 add.commute)
    from False ne have "index_of (y # ys) x = index_of ys x + 1"
      by (simp add: Let_def)
    with ih eq False show ?thesis by simp
  qed
qed

text \<open>\<open>indexOf\<close> followed by \<open>splice(i, 1)\<close> removes the first occurrence.\<close>

lemma remove_at_index_of [splice_simps]:
  "x \<in> set xs \<Longrightarrow> remove_at (nat (index_of xs x)) xs = remove1 x xs"
proof (induction xs)
  case Nil
  then show ?case by simp
next
  case (Cons y ys)
  show ?case
  proof (cases "y = x")
    case True
    then show ?thesis by (simp add: remove_at_def)
  next
    case False
    with Cons.prems have x: "x \<in> set ys" by simp
    then have ne: "index_of ys x \<noteq> -1" and nn: "0 \<le> index_of ys x"
      using index_of_present [OF x] by (auto simp: index_of_absent)
    then have "nat (index_of (y # ys) x) = Suc (nat (index_of ys x))"
      using False by (simp add: Let_def Suc_nat_eq_nat_zadd1 add.commute)
    with Cons.IH [OF x] False show ?thesis
      by (simp add: remove_at_def)
  qed
qed

lemma map_remove_at:
  "map f (remove_at i xs) = remove_at i (map f xs)"
  by (simp add: remove_at_def take_map drop_map)

lemma map_insert_at:
  "map f (insert_at i x xs) = insert_at i (f x) (map f xs)"
  by (simp add: insert_at_def take_map drop_map)

end
