(* ===== verification/Json.thy ===== *)
theory Json
  imports Todo_Prelude
begin

text \<open>
  \<open>JSON.stringify\<close> and \<open>JSON.parse\<close> of the ECMAScript standard library, as
  \<open>TodoComponent\<close> uses them to persist its two task arrays in \<open>localStorage\<close>
  (platform code, modelled from ECMA-262 and ECMA-404).  Scope of the model:
  \<^item> strings are Isabelle strings of 8-bit characters; JavaScript strings are UTF-16,
    so the model covers code units below 256.  \<open>JSON.stringify\<close> escapes quote,
    backslash and the control characters below 0x20 (\<open>\b \f \n \r \t\<close> short, the rest
    as lowercase \<open>\u00xx\<close>), exactly as QuoteJSONString does;
  \<^item> numbers are integers (the persisted data contains none); \<open>JSON.parse\<close> of a
    number with a fraction or an exponent is outside the model and yields \<open>None\<close>;
  \<^item> objects are association lists in source order (duplicate keys kept);
  \<^item> \<open>None\<close> from \<open>json_parse\<close> is the SyntaxError that \<open>JSON.parse\<close> throws.
  The parser is recursive descent with a fuel argument; \<open>json_parse\<close> supplies fuel
  from the input length, and the round-trip theorem shows that this is enough for every
  printed value.
\<close>

datatype json =
    JNull
  | JBool bool
  | JNum int
  | JStr string
  | JArr "json list"
  | JObj "(string \<times> json) list"

subsection \<open>JSON.stringify\<close>

definition hex_digit :: "nat \<Rightarrow> char" where
  "hex_digit n = (if n < 10 then char_of (48 + n) else char_of (87 + n))"

definition escape_char :: "char \<Rightarrow> string" where
  "escape_char c =
     (if c = CHR 0x22 then [CHR 0x5C, CHR 0x22]
      else if c = CHR 0x5C then [CHR 0x5C, CHR 0x5C]
      else if c = CHR 0x08 then [CHR 0x5C, CHR ''b'']
      else if c = CHR 0x0C then [CHR 0x5C, CHR ''f'']
      else if c = CHR 0x0A then [CHR 0x5C, CHR ''n'']
      else if c = CHR 0x0D then [CHR 0x5C, CHR ''r'']
      else if c = CHR 0x09 then [CHR 0x5C, CHR ''t'']
      else if of_char c < (32::nat)
      then [CHR 0x5C, CHR ''u'', CHR ''0'', CHR ''0'',
            hex_digit (of_char c div 16), hex_digit (of_char c mod 16)]
      else [c])"

definition quote_json :: "string \<Rightarrow> string" where
  "quote_json s = CHR 0x22 # concat (map escape_char s) @ [CHR 0x22]"

fun digits_of_nat :: "nat \<Rightarrow> string" where
  "digits_of_nat n =
     (if n < 10 then [char_of (48 + n)] else digits_of_nat (n div 10) @ [char_of (48 + n mod 10)])"

declare digits_of_nat.simps [simp del]

definition number_to_string :: "int \<Rightarrow> string" where
  "number_to_string i =
     (if i < 0 then CHR ''-'' # digits_of_nat (nat (- i)) else digits_of_nat (nat i))"

fun join_commas :: "string list \<Rightarrow> string" where
  "join_commas [] = []"
| "join_commas [s] = s"
| "join_commas (s # ss) = s @ CHR '','' # join_commas ss"

fun json_stringify :: "json \<Rightarrow> string" where
  "json_stringify JNull = ''null''"
| "json_stringify (JBool b) = (if b then ''true'' else ''false'')"
| "json_stringify (JNum i) = number_to_string i"
| "json_stringify (JStr s) = quote_json s"
| "json_stringify (JArr vs) = CHR ''['' # join_commas (map json_stringify vs) @ [CHR '']'']"
| "json_stringify (JObj kvs) =
     CHR ''{'' # join_commas (map (\<lambda>(k, v). quote_json k @ CHR '':'' # json_stringify v) kvs)
       @ [CHR ''}'']"

subsection \<open>JSON.parse\<close>

definition is_ws :: "char \<Rightarrow> bool" where
  "is_ws c \<longleftrightarrow> c = CHR 0x20 \<or> c = CHR 0x09 \<or> c = CHR 0x0A \<or> c = CHR 0x0D"

definition skip_ws :: "string \<Rightarrow> string" where
  "skip_ws s = dropWhile is_ws s"

definition is_digit :: "char \<Rightarrow> bool" where
  "is_digit c \<longleftrightarrow> 48 \<le> (of_char c :: nat) \<and> (of_char c :: nat) \<le> 57"

definition digit_val :: "char \<Rightarrow> nat" where
  "digit_val c = of_char c - 48"

definition hex_value :: "char \<Rightarrow> nat option" where
  "hex_value c =
     (let k = (of_char c :: nat)
      in if 48 \<le> k \<and> k \<le> 57 then Some (k - 48)
         else if 97 \<le> k \<and> k \<le> 102 then Some (k - 87)
         else if 65 \<le> k \<and> k \<le> 70 then Some (k - 55)
         else None)"

definition cons_result :: "char \<Rightarrow> (string \<times> string) option \<Rightarrow> (string \<times> string) option" where
  "cons_result c r = map_option (\<lambda>(s, rest). (c # s, rest)) r"

definition hex4 :: "char \<Rightarrow> char \<Rightarrow> char \<Rightarrow> char \<Rightarrow> nat option" where
  "hex4 a b c d =
     (case (hex_value a, hex_value b, hex_value c, hex_value d) of
        (Some w, Some x, Some y, Some z) \<Rightarrow> Some (((w * 16 + x) * 16 + y) * 16 + z)
      | _ \<Rightarrow> None)"

text \<open>The body of a string literal, after its opening quote: the decoded text and the
  input after the closing quote.\<close>

fun parse_string :: "string \<Rightarrow> (string \<times> string) option" where
  "parse_string [] = None"
| "parse_string (c # cs) =
     (if c = CHR 0x22 then Some ([], cs)
      else if c = CHR 0x5C then
        (case cs of
           [] \<Rightarrow> None
         | e # r \<Rightarrow>
             (if e = CHR 0x22 \<or> e = CHR 0x5C \<or> e = CHR ''/'' then cons_result e (parse_string r)
              else if e = CHR ''b'' then cons_result (CHR 0x08) (parse_string r)
              else if e = CHR ''f'' then cons_result (CHR 0x0C) (parse_string r)
              else if e = CHR ''n'' then cons_result (CHR 0x0A) (parse_string r)
              else if e = CHR ''r'' then cons_result (CHR 0x0D) (parse_string r)
              else if e = CHR ''t'' then cons_result (CHR 0x09) (parse_string r)
              else if e = CHR ''u'' then
                (case r of
                   h1 # h2 # h3 # h4 # r' \<Rightarrow>
                     (case hex4 h1 h2 h3 h4 of
                        Some k \<Rightarrow> if k < 256 then cons_result (char_of k) (parse_string r') else None
                      | None \<Rightarrow> None)
                 | _ \<Rightarrow> None)
              else None))
      else if of_char c < (32::nat) then None
      else cons_result c (parse_string cs))"

fun parse_digits :: "string \<Rightarrow> nat \<Rightarrow> nat \<times> string" where
  "parse_digits [] acc = (acc, [])"
| "parse_digits (c # cs) acc =
     (if is_digit c then parse_digits cs (10 * acc + digit_val c) else (acc, c # cs))"

definition starts_with :: "(char \<Rightarrow> bool) \<Rightarrow> string \<Rightarrow> bool" where
  "starts_with P s = (case s of [] \<Rightarrow> False | c # _ \<Rightarrow> P c)"

definition number_end :: "bool \<Rightarrow> nat \<Rightarrow> string \<Rightarrow> (int \<times> string) option" where
  "number_end neg n rest =
     (if starts_with (\<lambda>c. c = CHR ''.'' \<or> c = CHR ''e'' \<or> c = CHR ''E'') rest then None
      else Some (if neg then - int n else int n, rest))"

definition parse_unsigned :: "bool \<Rightarrow> string \<Rightarrow> (int \<times> string) option" where
  "parse_unsigned neg s =
     (case s of
        [] \<Rightarrow> None
      | c # r \<Rightarrow>
          (if c = CHR ''0'' then (if starts_with is_digit r then None else number_end neg 0 r)
           else if is_digit c then (case parse_digits (c # r) 0 of (n, rest) \<Rightarrow> number_end neg n rest)
           else None))"

definition parse_number :: "string \<Rightarrow> (int \<times> string) option" where
  "parse_number s =
     (case s of
        c # r \<Rightarrow> (if c = CHR ''-'' then parse_unsigned True r else parse_unsigned False s)
      | [] \<Rightarrow> None)"

fun parse_value :: "nat \<Rightarrow> string \<Rightarrow> (json \<times> string) option"
and parse_elems :: "nat \<Rightarrow> string \<Rightarrow> (json list \<times> string) option"
and parse_members :: "nat \<Rightarrow> string \<Rightarrow> ((string \<times> json) list \<times> string) option" where
  "parse_value 0 s = None"
| "parse_value (Suc n) s =
     (case skip_ws s of
        [] \<Rightarrow> None
      | c # r \<Rightarrow>
          (if c = CHR ''{'' then
             (case skip_ws r of
                [] \<Rightarrow> None
              | d # r' \<Rightarrow>
                  (if d = CHR ''}'' then Some (JObj [], skip_ws r')
                   else map_option (\<lambda>(kvs, r''). (JObj kvs, skip_ws r'')) (parse_members n (d # r'))))
           else if c = CHR ''['' then
             (case skip_ws r of
                [] \<Rightarrow> None
              | d # r' \<Rightarrow>
                  (if d = CHR '']'' then Some (JArr [], skip_ws r')
                   else map_option (\<lambda>(vs, r''). (JArr vs, skip_ws r'')) (parse_elems n (d # r'))))
           else if c = CHR 0x22 then
             map_option (\<lambda>(str, r'). (JStr str, skip_ws r')) (parse_string r)
           else if take 4 (c # r) = ''true'' then Some (JBool True, skip_ws (drop 3 r))
           else if take 5 (c # r) = ''false'' then Some (JBool False, skip_ws (drop 4 r))
           else if take 4 (c # r) = ''null'' then Some (JNull, skip_ws (drop 3 r))
           else map_option (\<lambda>(i, r'). (JNum i, skip_ws r')) (parse_number (c # r))))"
| "parse_elems 0 s = None"
| "parse_elems (Suc n) s =
     (case parse_value n s of
        None \<Rightarrow> None
      | Some (v, r) \<Rightarrow>
          (case r of
             [] \<Rightarrow> None
           | c # r' \<Rightarrow>
               (if c = CHR '','' then map_option (\<lambda>(vs, r''). (v # vs, r'')) (parse_elems n r')
                else if c = CHR '']'' then Some ([v], r')
                else None)))"
| "parse_members 0 s = None"
| "parse_members (Suc n) s =
     (case s of
        [] \<Rightarrow> None
      | c # r \<Rightarrow>
          (if c \<noteq> CHR 0x22 then None
           else
             (case parse_string r of
                None \<Rightarrow> None
              | Some (k, r1) \<Rightarrow>
                  (case skip_ws r1 of
                     [] \<Rightarrow> None
                   | d # r2 \<Rightarrow>
                       (if d \<noteq> CHR '':'' then None
                        else
                          (case parse_value n r2 of
                             None \<Rightarrow> None
                           | Some (v, r3) \<Rightarrow>
                               (case r3 of
                                  [] \<Rightarrow> None
                                | e # r4 \<Rightarrow>
                                    (if e = CHR '','' then
                                       map_option (\<lambda>(kvs, r5). ((k, v) # kvs, r5))
                                         (parse_members n (skip_ws r4))
                                     else if e = CHR ''}'' then Some ([(k, v)], r4)
                                     else None))))))))"

definition json_parse :: "string \<Rightarrow> json option" where
  "json_parse s =
     (case parse_value (Suc (length s)) s of
        Some (v, []) \<Rightarrow> Some v
      | _ \<Rightarrow> None)"


text \<open>Where a printed number or value may stop: the text after it cannot extend it.\<close>

definition number_stop :: "string \<Rightarrow> bool" where
  "number_stop rest \<longleftrightarrow> \<not> starts_with is_digit rest
     \<and> \<not> starts_with (\<lambda>c. c = CHR ''.'' \<or> c = CHR ''e'' \<or> c = CHR ''E'') rest"

definition value_stop :: "string \<Rightarrow> bool" where
  "value_stop rest \<longleftrightarrow> rest = [] \<or> hd rest = CHR '','' \<or> hd rest = CHR '']'' \<or> hd rest = CHR ''}''"

abbreviation print_member :: "string \<times> json \<Rightarrow> string" where
  "print_member \<equiv> (\<lambda>(k, v). quote_json k @ CHR '':'' # json_stringify v)"

subsection \<open>The round trip\<close>

lemma char_of_of_char_nat [simp]: "char_of (of_char c :: nat) = c"
  by simp

lemma hex_value_hex_digit:
  "n < 16 \<Longrightarrow> hex_value (hex_digit n) = Some n"
  by (auto simp: hex_value_def hex_digit_def Let_def)

lemma parse_string_escape_char:
  "parse_string (escape_char c @ x) = cons_result c (parse_string x)"
proof -
  have h: "hex4 (CHR ''0'') (CHR ''0'') (hex_digit (of_char c div 16)) (hex_digit (of_char c mod 16))
        = Some (of_char c)" if a: "(of_char c :: nat) < 32"
  proof -
    have "of_char c div 16 < (16::nat)" "of_char c mod 16 < (16::nat)"
      using a by simp_all
    moreover have "hex_value (CHR ''0'') = Some 0"
      by (simp add: hex_value_def)
    ultimately show ?thesis
      by (simp add: hex4_def hex_value_hex_digit)
  qed
  show ?thesis
    using h by (auto simp: escape_char_def)
qed
lemma parse_string_quote:
  "parse_string (concat (map escape_char s) @ CHR 0x22 # rest) = Some (s, rest)"
  by (induction s) (simp_all add: parse_string_escape_char cons_result_def)

lemma is_digit_char_of [simp]:
  "(k::nat) < 10 \<Longrightarrow> is_digit (char_of (48 + k))"
  by (simp add: is_digit_def)

lemma digit_val_char_of [simp]:
  "(k::nat) < 10 \<Longrightarrow> digit_val (char_of (48 + k)) = k"
  by (simp add: digit_val_def)

lemma char_of_48: "char_of (48::nat) = CHR ''0''"
  by code_simp

lemma char_of_digit_zero_iff:
  "(k::nat) < 10 \<Longrightarrow> char_of (48 + k) = CHR ''0'' \<longleftrightarrow> k = 0"
proof
  assume k: "k < 10" and eq: "char_of (48 + k) = CHR ''0''"
  have "(of_char (char_of (48 + k)) :: nat) = 48 + k"
    using k by simp
  with eq show "k = 0" by simp
qed (simp add: char_of_48)

lemma digits_of_nat_all_digits:
  "\<forall>c \<in> set (digits_of_nat n). is_digit c"
  by (induction n rule: digits_of_nat.induct) (subst digits_of_nat.simps, simp)

lemma digits_of_nat_value:
  "foldl (\<lambda>a c. 10 * a + digit_val c) acc (digits_of_nat n)
     = acc * 10 ^ length (digits_of_nat n) + n"
proof (induction n arbitrary: acc rule: digits_of_nat.induct)
  case (1 n)
  show ?case
  proof (cases "n < 10")
    case True
    then show ?thesis by (subst (1 2) digits_of_nat.simps) simp
  next
    case False
    then have "digits_of_nat n = digits_of_nat (n div 10) @ [char_of (48 + n mod 10)]"
      by (subst digits_of_nat.simps) simp
    with "1" [OF False] show ?thesis
      by (simp add: algebra_simps)
  qed
qed

lemma digits_of_nat_Cons:
  "\<exists>c r. digits_of_nat n = c # r \<and> is_digit c \<and> (c = CHR ''0'' \<longrightarrow> n = 0 \<and> r = [])"
proof (induction n rule: digits_of_nat.induct)
  case (1 n)
  show ?case
  proof (cases "n < 10")
    case True
    then show ?thesis
      by (subst digits_of_nat.simps) (auto simp: is_digit_def char_of_digit_zero_iff)
  next
    case False
    from "1" [OF False] obtain c r where
      d: "digits_of_nat (n div 10) = c # r" and c: "is_digit c"
        and z: "c = CHR ''0'' \<longrightarrow> n div 10 = 0 \<and> r = []"
      by blast
    have "n div 10 \<noteq> 0" using False by simp
    with False d c z show ?thesis
      by (subst digits_of_nat.simps) auto
  qed
qed

lemma parse_digits_append:
  "\<forall>c \<in> set ds. is_digit c \<Longrightarrow>
     parse_digits (ds @ rest) acc = parse_digits rest (foldl (\<lambda>a c. 10 * a + digit_val c) acc ds)"
  by (induction ds arbitrary: acc) simp_all

lemma parse_digits_stop:
  "\<not> starts_with is_digit rest \<Longrightarrow> parse_digits rest acc = (acc, rest)"
  by (cases rest) (simp_all add: starts_with_def)

lemma parse_unsigned_digits:
  assumes "number_stop rest"
  shows "parse_unsigned neg (digits_of_nat n @ rest) = Some (if neg then - int n else int n, rest)"
proof -
  obtain c r where d: "digits_of_nat n = c # r" and c: "is_digit c"
    and z: "c = CHR ''0'' \<longrightarrow> n = 0 \<and> r = []"
    using digits_of_nat_Cons [of n] by blast
  show ?thesis
  proof (cases "c = CHR ''0''")
    case True
    with z have n0: "n = 0" and "r = []" by simp_all
    with d True have d0: "digits_of_nat n = [CHR ''0'']" by simp
    show ?thesis
      unfolding d0 using assms n0 by (simp add: parse_unsigned_def number_end_def number_stop_def)
  next
    case False
    have v: "foldl (\<lambda>a c. 10 * a + digit_val c) 0 (digits_of_nat n) = n"
      using digits_of_nat_value [of 0 n] by simp
    have "parse_digits (digits_of_nat n @ rest) 0 = parse_digits rest n"
      using parse_digits_append [OF digits_of_nat_all_digits [of n], of rest 0] v by simp
    then have "parse_digits (c # r @ rest) 0 = parse_digits rest n"
      by (simp only: d append_Cons)
    also have "\<dots> = (n, rest)"
      using assms by (simp add: parse_digits_stop number_stop_def)
    finally show ?thesis
      using False c assms by (simp add: d parse_unsigned_def number_end_def number_stop_def)
  qed
qed

lemma not_digit_minus [simp]: "\<not> is_digit (CHR ''-'')"
  by (simp add: is_digit_def)

lemma parse_number_print:
  assumes "number_stop rest"
  shows "parse_number (number_to_string i @ rest) = Some (i, rest)"
proof (cases "i < 0")
  case True
  then show ?thesis
    using parse_unsigned_digits [OF assms, of True "nat (- i)"]
    by (simp add: number_to_string_def parse_number_def)
next
  case False
  obtain c r where d: "digits_of_nat (nat i) = c # r" and c: "is_digit c"
    using digits_of_nat_Cons [of "nat i"] by blast
  have "c \<noteq> CHR ''-''" using c by auto
  then show ?thesis
    using False parse_unsigned_digits [OF assms, of False "nat i"]
    by (simp add: number_to_string_def parse_number_def d)
qed

lemma skip_ws_Cons [simp]:
  "\<not> is_ws c \<Longrightarrow> skip_ws (c # s) = c # s"
  by (simp add: skip_ws_def)

lemma value_stop_skip_ws:
  "value_stop rest \<Longrightarrow> skip_ws rest = rest"
  by (cases rest) (auto simp: value_stop_def is_ws_def skip_ws_def)

lemma value_stop_number_stop:
  "value_stop rest \<Longrightarrow> number_stop rest"
  by (cases rest) (auto simp: value_stop_def number_stop_def starts_with_def is_digit_def)

lemma value_stop_Cons [simp]:
  "value_stop (CHR '','' # r)" "value_stop (CHR '']'' # r)" "value_stop (CHR ''}'' # r)"
  by (simp_all add: value_stop_def)

lemma number_to_string_Cons:
  "\<exists>c r. number_to_string i = c # r \<and> (c = CHR ''-'' \<or> is_digit c)"
  using digits_of_nat_Cons [of "nat i"] by (auto simp: number_to_string_def)

lemma digit_not_special:
  "is_digit c \<Longrightarrow> \<not> is_ws c \<and> c \<noteq> CHR ''{'' \<and> c \<noteq> CHR ''['' \<and> c \<noteq> CHR 0x22
     \<and> c \<noteq> CHR ''t'' \<and> c \<noteq> CHR ''f'' \<and> c \<noteq> CHR ''n'' \<and> c \<noteq> CHR '']'' \<and> c \<noteq> CHR ''}''"
  by (auto simp: is_digit_def is_ws_def)

lemma number_to_string_head:
  "number_to_string i = c # r \<Longrightarrow> \<not> is_ws c \<and> c \<noteq> CHR ''{'' \<and> c \<noteq> CHR ''['' \<and> c \<noteq> CHR 0x22
     \<and> c \<noteq> CHR ''t'' \<and> c \<noteq> CHR ''f'' \<and> c \<noteq> CHR ''n'' \<and> c \<noteq> CHR '']'' \<and> c \<noteq> CHR ''}''"
proof -
  assume n: "number_to_string i = c # r"
  obtain c' r' where cr: "number_to_string i = c' # r'" and c: "c' = CHR ''-'' \<or> is_digit c'"
    using number_to_string_Cons [of i] by blast
  from n cr have "c' = c" by simp
  show ?thesis
  proof (cases "c = CHR ''-''")
    case True
    then show ?thesis by (simp add: is_ws_def)
  next
    case False
    with c \<open>c' = c\<close> have "is_digit c" by simp
    then show ?thesis by (simp add: digit_not_special)
  qed
qed

lemma json_stringify_Cons:
  "\<exists>c r. json_stringify v = c # r \<and> \<not> is_ws c \<and> c \<noteq> CHR '']'' \<and> c \<noteq> CHR ''}''"
proof (cases v)
  case (JNum i)
  obtain c r where n: "number_to_string i = c # r"
    using number_to_string_Cons [of i] by blast
  with JNum show ?thesis
    using number_to_string_head [OF n] by simp
qed (simp_all add: is_ws_def quote_json_def)

lemma join_commas_Cons:
  "vs \<noteq> [] \<Longrightarrow> \<exists>r. join_commas (map json_stringify vs) = json_stringify (hd vs) @ r"
  by (cases vs rule: remdups_adj.cases) auto

lemma parse_elems_print:
  assumes "\<forall>v \<in> set vs. \<forall>n rest. length (json_stringify v) < n \<longrightarrow> value_stop rest \<longrightarrow>
             parse_value n (json_stringify v @ rest) = Some (v, rest)"
    and "vs \<noteq> []"
    and "length (join_commas (map json_stringify vs)) + 1 < m"
  shows "parse_elems m (join_commas (map json_stringify vs) @ CHR '']'' # rest) = Some (vs, rest)"
  using assms
proof (induction vs arbitrary: m)
  case Nil
  then show ?case by simp
next
  case (Cons v vs)
  from Cons.prems(3) obtain m' where m: "m = Suc m'"
    by (cases m) auto
  show ?case
  proof (cases vs)
    case Nil
    have "parse_value m' (json_stringify v @ CHR '']'' # rest) = Some (v, CHR '']'' # rest)"
      using Cons.prems(1,3) Nil m by simp
    then show ?thesis
      using Nil m by simp
  next
    case (Cons v2 vs2)
    have pv: "parse_value m' (json_stringify v @ CHR '','' # join_commas (map json_stringify vs)
        @ CHR '']'' # rest) = Some (v, CHR '','' # join_commas (map json_stringify vs) @ CHR '']'' # rest)"
      using Cons.prems(1,3) Cons m by simp
    have "parse_elems m' (join_commas (map json_stringify vs) @ CHR '']'' # rest) = Some (vs, rest)"
      using Cons.prems Cons m by (intro Cons.IH) auto
    with pv Cons m show ?thesis
      by simp
  qed
qed

lemma skip_ws_colon [simp]: "skip_ws (CHR '':'' # s) = CHR '':'' # s"
  by (simp add: is_ws_def)

lemma parse_member_head:
  assumes "parse_value n (json_stringify v @ x) = Some (v, x)"
  shows "parse_members (Suc n) (quote_json k @ CHR '':'' # json_stringify v @ x) =
     (case x of
        [] \<Rightarrow> None
      | e # r4 \<Rightarrow>
          (if e = CHR '','' then map_option (\<lambda>(kvs, r5). ((k, v) # kvs, r5)) (parse_members n (skip_ws r4))
           else if e = CHR ''}'' then Some ([(k, v)], r4) else None))"
proof -
  have "quote_json k @ CHR '':'' # json_stringify v @ x =
      CHR 0x22 # (concat (map escape_char k) @ CHR 0x22 # (CHR '':'' # json_stringify v @ x))"
    by (simp add: quote_json_def)
  then show ?thesis
    using assms by (simp add: parse_string_quote)
qed

lemma parse_members_print:
  assumes "\<forall>kv \<in> set kvs. \<forall>n rest. length (json_stringify (snd kv)) < n \<longrightarrow> value_stop rest \<longrightarrow>
             parse_value n (json_stringify (snd kv) @ rest) = Some (snd kv, rest)"
    and "kvs \<noteq> []"
    and "length (join_commas (map print_member kvs)) + 1 < m"
  shows "parse_members m (join_commas (map print_member kvs) @ CHR ''}'' # rest) = Some (kvs, rest)"
  using assms
proof (induction kvs arbitrary: m)
  case Nil
  then show ?case by simp
next
  case (Cons kv kvs)
  obtain k v where kv: "kv = (k, v)" by (cases kv)
  from Cons.prems(3) obtain m' where m: "m = Suc m'"
    by (cases m) auto
  have lq: "2 \<le> length (quote_json k)" by (simp add: quote_json_def)
  show ?case
  proof (cases kvs)
    case Nil
    have "parse_value m' (json_stringify v @ CHR ''}'' # rest) = Some (v, CHR ''}'' # rest)"
      using Cons.prems(1,3) Nil m kv lq by simp
    from parse_member_head [OF this, of k] show ?thesis
      using Nil m kv by simp
  next
    case (Cons kv2 kvs2)
    let ?x = "CHR '','' # join_commas (map print_member kvs) @ CHR ''}'' # rest"
    have "parse_value m' (json_stringify v @ ?x) = Some (v, ?x)"
      using Cons.prems(1,3) Cons m kv lq by simp
    note hd = parse_member_head [OF this, of k]
    obtain k2 v2 where kv2: "kv2 = (k2, v2)" by (cases kv2)
    have sk: "skip_ws (join_commas (map print_member kvs) @ CHR ''}'' # rest)
        = join_commas (map print_member kvs) @ CHR ''}'' # rest"
      using Cons kv2 by (cases kvs2) (simp_all add: quote_json_def is_ws_def)
    have "parse_members m' (join_commas (map print_member kvs) @ CHR ''}'' # rest) = Some (kvs, rest)"
      using Cons.prems Cons m by (intro Cons.IH) auto
    with hd sk Cons m kv show ?thesis
      by simp
  qed
qed

theorem parse_value_print:
  "length (json_stringify v) < n \<Longrightarrow> value_stop rest \<Longrightarrow>
     parse_value n (json_stringify v @ rest) = Some (v, rest)"
proof (induction v arbitrary: n rest)
  case JNull
  then obtain m where "n = Suc m" by (cases n) auto
  with JNull show ?case by (simp add: is_ws_def value_stop_skip_ws)
next
  case (JBool b)
  then obtain m where "n = Suc m" by (cases n) auto
  with JBool show ?case by (simp add: is_ws_def value_stop_skip_ws)
next
  case (JNum i)
  then obtain m where m: "n = Suc m" by (cases n) auto
  obtain c r where cr: "number_to_string i = c # r" and c: "c = CHR ''-'' \<or> is_digit c"
    using number_to_string_Cons [of i] by blast
  have pn: "parse_number (c # r @ rest) = Some (i, rest)"
    using parse_number_print [OF value_stop_number_stop [OF JNum.prems(2)], of i] cr by simp
  have ns: "\<not> is_ws c \<and> c \<noteq> CHR ''{'' \<and> c \<noteq> CHR ''['' \<and> c \<noteq> CHR 0x22
     \<and> c \<noteq> CHR ''t'' \<and> c \<noteq> CHR ''f'' \<and> c \<noteq> CHR ''n''"
    using number_to_string_head [OF cr] by simp
  show ?case
    using m cr pn ns JNum.prems(2) by (simp add: value_stop_skip_ws)
next
  case (JStr s)
  then obtain m where "n = Suc m" by (cases n) auto
  with JStr show ?case
    by (simp add: quote_json_def is_ws_def parse_string_quote value_stop_skip_ws)
next
  case (JArr vs)
  then obtain m where m: "n = Suc m" by (cases n) auto
  show ?case
  proof (cases "vs = []")
    case True
    with m JArr.prems show ?thesis by (simp add: is_ws_def value_stop_skip_ws)
  next
    case False
    obtain c r where cr: "json_stringify (hd vs) = c # r" and
        c: "\<not> is_ws c \<and> c \<noteq> CHR '']'' \<and> c \<noteq> CHR ''}''"
      using json_stringify_Cons [of "hd vs"] by blast
    obtain r' where j: "join_commas (map json_stringify vs) = c # r'"
      using join_commas_Cons [OF False] cr by auto
    have el: "parse_elems m (join_commas (map json_stringify vs) @ CHR '']'' # rest) = Some (vs, rest)"
      using JArr.IH JArr.prems(1) False m by (intro parse_elems_print) auto
    show ?thesis
      using m j c el JArr.prems(2) by (simp add: is_ws_def value_stop_skip_ws)
  qed
next
  case (JObj kvs)
  then obtain m where m: "n = Suc m" by (cases n) auto
  show ?case
  proof (cases "kvs = []")
    case True
    with m JObj.prems show ?thesis by (simp add: is_ws_def value_stop_skip_ws)
  next
    case False
    then obtain k v kvs' where kvs: "kvs = (k, v) # kvs'"
      by (cases kvs) auto
    obtain r' where j: "join_commas (map print_member kvs) = CHR 0x22 # r'"
      using kvs by (cases kvs') (simp_all add: quote_json_def)
    have IH: "\<forall>kv \<in> set kvs. \<forall>n rest. length (json_stringify (snd kv)) < n \<longrightarrow> value_stop rest \<longrightarrow>
             parse_value n (json_stringify (snd kv) @ rest) = Some (snd kv, rest)"
      using JObj.IH by (metis prod.collapse snds.intros)
    have el: "parse_members m (join_commas (map print_member kvs) @ CHR ''}'' # rest) = Some (kvs, rest)"
      using IH JObj.prems(1) False m by (intro parse_members_print) auto
    show ?thesis
      using m j el JObj.prems(2) by (simp add: is_ws_def value_stop_skip_ws)
  qed
qed

lemma json_parse_stringify:
  "json_parse (json_stringify v) = Some v"
  using parse_value_print [of v "Suc (length (json_stringify v))" "[]"]
  by (simp add: json_parse_def value_stop_def)

end
