(* ===== verification/Json_Syntax.thy ===== *)
theory Json_Syntax
  imports Json
begin

text \<open>
  The syntax of JSON texts (ECMA-404), as \<open>JSON.parse\<close> checks it before it builds a
  value: \<open>JSON.parse\<close> throws a \<open>SyntaxError\<close> exactly when its argument is not a
  JSON text.  The parser of theory \<open>Json\<close> builds only the values the component
  stores (integers, strings of 8-bit characters), so its failure does not tell a
  syntax error from a valid text outside the model, such as \<open>[1.5]\<close> or \<open>["\u0100"]\<close>.
  The recogniser here accepts the whole grammar: numbers with fraction and exponent,
  and every \<open>\uXXXX\<close> escape.  Each function returns the input left after the phrase
  it recognises.  The recursion carries fuel.  \<open>json_valid\<close> gives it twice the
  length of the text plus one, which is proved enough for every text the recogniser
  accepts with any fuel (\<open>json_valid_iff\<close>).
\<close>

text \<open>The body of a string literal after its opening quote.\<close>

fun scan_string :: "string \<Rightarrow> string option" where
  "scan_string [] = None"
| "scan_string (c # cs) =
     (if c = CHR 0x22 then Some cs
      else if c = CHR 0x5C then
        (case cs of
           [] \<Rightarrow> None
         | e # r \<Rightarrow>
             (if e \<in> set [CHR 0x22, CHR 0x5C, CHR ''/'', CHR ''b'', CHR ''f'', CHR ''n'', CHR ''r'', CHR ''t'']
              then scan_string r
              else if e = CHR ''u'' then
                (case r of
                   h1 # h2 # h3 # h4 # r' \<Rightarrow>
                     (if hex4 h1 h2 h3 h4 \<noteq> None then scan_string r' else None)
                 | _ \<Rightarrow> None)
              else None))
      else if of_char c < (32::nat) then None
      else scan_string cs)"

text \<open>\<open>int = "0" | digit1-9 digit*\<close>, \<open>frac = "." digit+\<close>,
  \<open>exp = ("e" | "E") ("+" | "-")? digit+\<close>; a number is \<open>"-"? int frac? exp?\<close>.\<close>

definition scan_int_part :: "string \<Rightarrow> string option" where
  "scan_int_part s =
     (case s of
        [] \<Rightarrow> None
      | c # r \<Rightarrow> (if c = CHR ''0'' then Some r
                 else if is_digit c then Some (dropWhile is_digit r) else None))"

definition scan_digits1 :: "string \<Rightarrow> string option" where
  "scan_digits1 s =
     (case s of
        [] \<Rightarrow> None
      | c # r \<Rightarrow> (if is_digit c then Some (dropWhile is_digit r) else None))"

definition scan_frac :: "string \<Rightarrow> string option" where
  "scan_frac s = (case s of c # r \<Rightarrow> (if c = CHR ''.'' then scan_digits1 r else Some s) | [] \<Rightarrow> Some [])"

definition scan_exp :: "string \<Rightarrow> string option" where
  "scan_exp s =
     (case s of
        c # r \<Rightarrow>
          (if c = CHR ''e'' \<or> c = CHR ''E'' then
             scan_digits1 (case r of x # r' \<Rightarrow> (if x = CHR ''+'' \<or> x = CHR ''-'' then r' else r) | [] \<Rightarrow> r)
           else Some s)
      | [] \<Rightarrow> Some [])"

definition scan_number :: "string \<Rightarrow> string option" where
  "scan_number s =
     (let s1 = (case s of c # r \<Rightarrow> (if c = CHR ''-'' then r else s) | [] \<Rightarrow> s)
      in case scan_int_part s1 of
           None \<Rightarrow> None
         | Some r \<Rightarrow> (case scan_frac r of None \<Rightarrow> None | Some r' \<Rightarrow> scan_exp r'))"

fun scan_value :: "nat \<Rightarrow> string \<Rightarrow> string option"
and scan_elems :: "nat \<Rightarrow> string \<Rightarrow> string option"
and scan_members :: "nat \<Rightarrow> string \<Rightarrow> string option" where
  "scan_value 0 s = None"
| "scan_value (Suc n) s =
     (case skip_ws s of
        [] \<Rightarrow> None
      | c # r \<Rightarrow>
          (if c = CHR ''{'' then
             (case skip_ws r of
                [] \<Rightarrow> None
              | d # r' \<Rightarrow>
                  (if d = CHR ''}'' then Some (skip_ws r')
                   else map_option skip_ws (scan_members n (d # r'))))
           else if c = CHR ''['' then
             (case skip_ws r of
                [] \<Rightarrow> None
              | d # r' \<Rightarrow>
                  (if d = CHR '']'' then Some (skip_ws r')
                   else map_option skip_ws (scan_elems n (d # r'))))
           else if c = CHR 0x22 then map_option skip_ws (scan_string r)
           else if take 4 (c # r) = ''true'' then Some (skip_ws (drop 3 r))
           else if take 5 (c # r) = ''false'' then Some (skip_ws (drop 4 r))
           else if take 4 (c # r) = ''null'' then Some (skip_ws (drop 3 r))
           else map_option skip_ws (scan_number (c # r))))"
| "scan_elems 0 s = None"
| "scan_elems (Suc n) s =
     (case scan_value n s of
        None \<Rightarrow> None
      | Some r \<Rightarrow>
          (case r of
             [] \<Rightarrow> None
           | c # r' \<Rightarrow>
               (if c = CHR '','' then scan_elems n r'
                else if c = CHR '']'' then Some r'
                else None)))"
| "scan_members 0 s = None"
| "scan_members (Suc n) s =
     (case s of
        [] \<Rightarrow> None
      | c # r \<Rightarrow>
          (if c \<noteq> CHR 0x22 then None
           else
             (case scan_string r of
                None \<Rightarrow> None
              | Some r1 \<Rightarrow>
                  (case skip_ws r1 of
                     [] \<Rightarrow> None
                   | d # r2 \<Rightarrow>
                       (if d \<noteq> CHR '':'' then None
                        else
                          (case scan_value n r2 of
                             None \<Rightarrow> None
                           | Some r3 \<Rightarrow>
                               (case r3 of
                                  [] \<Rightarrow> None
                                | e # r4 \<Rightarrow>
                                    (if e = CHR '','' then scan_members n (skip_ws r4)
                                     else if e = CHR ''}'' then Some r4
                                     else None))))))))"

definition json_valid :: "string \<Rightarrow> bool" where
  "json_valid s \<longleftrightarrow> scan_value (Suc (2 * length s)) s = Some []"

subsection \<open>The recogniser consumes input\<close>

lemma length_skip_ws: "length (skip_ws s) \<le> length s"
  by (simp add: skip_ws_def length_dropWhile_le)

lemma scan_string_step:
  "scan_string (c # cs) = Some r \<Longrightarrow>
     r = cs \<or> (\<exists>t. length t \<le> length cs \<and> scan_string t = Some r)"
proof (cases "c = CHR 0x22 \<or> c \<noteq> CHR 0x5C")
  case True
  then show "scan_string (c # cs) = Some r \<Longrightarrow> ?thesis"
    by (auto split: if_splits intro: exI [where x = cs])
next
  case False
  assume sc: "scan_string (c # cs) = Some r"
  with False obtain e r0 where cs: "cs = e # r0" by (cases cs) auto
  show ?thesis
  proof (cases "e = CHR ''u''")
    case True
    with sc False cs obtain h1 h2 h3 h4 r' where "r0 = h1 # h2 # h3 # h4 # r'" "scan_string r' = Some r"
      by (auto split: list.splits if_splits)
    then show ?thesis using cs by (intro disjI2 exI [where x = r']) simp
  next
    case nu: False
    with sc False cs have "scan_string r0 = Some r" by (simp split: if_splits)
    then show ?thesis using cs by (intro disjI2 exI [where x = r0]) simp
  qed
qed

lemma scan_string_shorter:
  "scan_string s = Some r \<Longrightarrow> length r < length s"
proof (induction "length s" arbitrary: s rule: less_induct)
  case less
  then obtain c cs where s: "s = c # cs" by (cases s) auto
  have "r = cs \<or> (\<exists>t. length t \<le> length cs \<and> scan_string t = Some r)"
    using scan_string_step [of c cs r] less.prems s by simp
  then show ?case
  proof
    assume "\<exists>t. length t \<le> length cs \<and> scan_string t = Some r"
    then obtain t where "length t \<le> length cs" "scan_string t = Some r" by blast
    then show ?thesis using less.hyps [of t] s by simp
  qed (simp add: s)
qed


lemma scan_digits1_shorter: "scan_digits1 s = Some r \<Longrightarrow> length r < length s"
  by (cases s) (auto simp: scan_digits1_def length_dropWhile_le le_imp_less_Suc split: if_splits)

lemma scan_number_shorter: "scan_number s = Some r \<Longrightarrow> length r < length s"
proof -
  assume h: "scan_number s = Some r"
  define s1 where "s1 = (case s of c # r \<Rightarrow> (if c = CHR ''-'' then r else s) | [] \<Rightarrow> s)"
  have l1: "length s1 \<le> length s" by (cases s) (simp_all add: s1_def)
  obtain r1 r2 where i: "scan_int_part s1 = Some r1" and f: "scan_frac r1 = Some r2" and e: "scan_exp r2 = Some r"
    using h by (simp add: scan_number_def s1_def [symmetric] split: option.splits)
  have "length r1 < length s1"
    using i by (cases s1) (auto simp: scan_int_part_def length_dropWhile_le le_imp_less_Suc split: if_splits)
  moreover have "length r2 \<le> length r1"
    using f scan_digits1_shorter [of "tl r1" r2]
    by (cases r1) (auto simp: scan_frac_def split: if_splits)
  moreover have "length r \<le> length r2"
  proof (cases r2)
    case (Cons c rr)
    let ?t = "case rr of x # r' \<Rightarrow> (if x = CHR ''+'' \<or> x = CHR ''-'' then r' else rr) | [] \<Rightarrow> rr"
    have "length ?t \<le> length rr" by (cases rr) simp_all
    then show ?thesis
      using e Cons scan_digits1_shorter [of ?t r] by (auto simp: scan_exp_def split: if_splits)
  qed (use e in \<open>simp add: scan_exp_def\<close>)
  ultimately show ?thesis using l1 by simp
qed

lemma map_option_skip_ws:
  "map_option skip_ws x = Some r \<Longrightarrow> \<exists>r'. x = Some r' \<and> r = skip_ws r'"
  by (cases x) simp_all

lemma scan_shorter:
  "(scan_value n s = Some r \<longrightarrow> length r < length s)
   \<and> (scan_elems n s = Some r \<longrightarrow> length r < length s)
   \<and> (scan_members n s = Some r \<longrightarrow> length r < length s)"
proof (induction n arbitrary: s r)
  case 0
  then show ?case by simp
next
  case (Suc n)
  have v: "length r < length s" if h: "scan_value (Suc n) s = Some r" for s r
  proof -
    obtain c r0 where ws: "skip_ws s = c # r0"
      using h by (cases "skip_ws s") simp_all
    have L: "length (c # r0) \<le> length s" using length_skip_ws [of s] ws by simp
    have sk: "length (skip_ws t) \<le> length t" for t by (rule length_skip_ws)
    consider "c = CHR ''{''" | "c = CHR ''[''" | "c \<noteq> CHR ''{''" "c \<noteq> CHR ''[''" by blast
    then show ?thesis
    proof cases
      case 1
      then obtain d r' where w2: "skip_ws r0 = d # r'" using h ws by (cases "skip_ws r0") simp_all
      have l2: "length (d # r') \<le> length r0" using length_skip_ws [of r0] w2 by simp
      show ?thesis
      proof (cases "d = CHR ''}''")
        case True
        then show ?thesis using h ws w2 1 L l2 sk [of r'] by simp
      next
        case False
        then have "map_option skip_ws (scan_members n (d # r')) = Some r"
          using h ws w2 1 by simp
        then obtain r'' where m: "scan_members n (d # r') = Some r''" and r: "r = skip_ws r''"
          using map_option_skip_ws by blast
        then show ?thesis using Suc.IH [of "d # r'" r''] L l2 sk [of r''] by simp
      qed
    next
      case 2
      then obtain d r' where w2: "skip_ws r0 = d # r'" using h ws by (cases "skip_ws r0") simp_all
      have l2: "length (d # r') \<le> length r0" using length_skip_ws [of r0] w2 by simp
      show ?thesis
      proof (cases "d = CHR '']''")
        case True
        then show ?thesis using h ws w2 2 L l2 sk [of r'] by simp
      next
        case False
        then have "map_option skip_ws (scan_elems n (d # r')) = Some r"
          using h ws w2 2 by simp
        then obtain r'' where m: "scan_elems n (d # r') = Some r''" and r: "r = skip_ws r''"
          using map_option_skip_ws by blast
        then show ?thesis using Suc.IH [of "d # r'" r''] L l2 sk [of r''] by simp
      qed
    next
      case 3
      show ?thesis
      proof (cases "c = CHR 0x22")
        case True
        then have "map_option skip_ws (scan_string r0) = Some r"
          using h ws 3 by simp
        then obtain r'' where "scan_string r0 = Some r''" "r = skip_ws r''"
          using map_option_skip_ws by blast
        then show ?thesis using scan_string_shorter [of r0 r''] L sk [of r''] by simp
      next
        case nq: False
        have lit: "length (skip_ws (drop k r0)) < length s" if "0 < k" for k
          using sk [of "drop k r0"] L that by simp
        show ?thesis
        proof (cases "take 4 (c # r0) = ''true'' \<or> take 5 (c # r0) = ''false'' \<or> take 4 (c # r0) = ''null''")
          case True
          then show ?thesis using h ws 3 nq lit [of 3] lit [of 4] by (auto split: if_splits)
        next
          case False
          then have "map_option skip_ws (scan_number (c # r0)) = Some r"
            using h ws 3 nq by (auto split: if_splits)
          then obtain r'' where "scan_number (c # r0) = Some r''" "r = skip_ws r''"
            using map_option_skip_ws by blast
          then show ?thesis using scan_number_shorter [of "c # r0" r''] L sk [of r''] by simp
        qed
      qed
    qed
  qed
  have e: "length r < length s" if h: "scan_elems (Suc n) s = Some r" for s r
  proof -
    obtain r1 where v1: "scan_value n s = Some r1" using h by (cases "scan_value n s") simp_all
    obtain c r' where r1: "r1 = c # r'" using h v1 by (cases r1) simp_all
    have "length r1 < length s" using Suc.IH v1 by blast
    then show ?thesis
      using h v1 r1 Suc.IH [of r' r] by (auto split: if_splits)
  qed
  have m: "length r < length s" if h: "scan_members (Suc n) s = Some r" for s r
  proof -
    obtain r0 where s: "s = CHR 0x22 # r0" using h by (cases s) (auto split: if_splits)
    obtain r1 where s1: "scan_string r0 = Some r1" using h s by (cases "scan_string r0") simp_all
    obtain r2 where w: "skip_ws r1 = CHR '':'' # r2"
      using h s s1 by (cases "skip_ws r1") (auto split: if_splits)
    obtain r3 where v3: "scan_value n r2 = Some r3" using h s s1 w by (cases "scan_value n r2") simp_all
    obtain e r4 where r3: "r3 = e # r4" using h s s1 w v3 by (cases r3) simp_all
    have "length r3 < length s"
      using Suc.IH [of r2 r3] v3 scan_string_shorter [OF s1] length_skip_ws [of r1] w s by simp
    then show ?thesis
      using h s s1 w v3 r3 Suc.IH [of "skip_ws r4" r] length_skip_ws [of r4] by (auto split: if_splits)
  qed
  show ?case using v e m by blast
qed


lemma scan_value_shorter: "scan_value n s = Some r \<Longrightarrow> length r < length s"
  using scan_shorter by blast

lemma scan_elems_shorter: "scan_elems n s = Some r \<Longrightarrow> length r < length s"
  using scan_shorter by blast

lemma scan_members_shorter: "scan_members n s = Some r \<Longrightarrow> length r < length s"
  using scan_shorter by blast

subsection \<open>Twice the length is enough fuel\<close>

lemma scan_fuel:
  "(scan_value n s = Some r \<longrightarrow> (\<forall>m \<ge> Suc (2 * (length s - length r)). scan_value m s = Some r))
   \<and> (scan_elems n s = Some r \<longrightarrow> (\<forall>m \<ge> 2 * (length s - length r). scan_elems m s = Some r))
   \<and> (scan_members n s = Some r \<longrightarrow> (\<forall>m \<ge> 2 * (length s - length r). scan_members m s = Some r))"
proof (induction n arbitrary: s r)
  case 0
  then show ?case by simp
next
  case (Suc n)
  have v: "scan_value m s = Some r"
    if h: "scan_value (Suc n) s = Some r" and m: "Suc (2 * (length s - length r)) \<le> m" for s r m
  proof -
    obtain m' where m': "m = Suc m'" using m by (cases m) simp_all
    obtain c r0 where ws: "skip_ws s = c # r0"
      using h by (cases "skip_ws s") simp_all
    have L: "length (c # r0) \<le> length s" using length_skip_ws [of s] ws by simp
    consider "c = CHR ''{''" | "c = CHR ''[''" | "c \<noteq> CHR ''{''" "c \<noteq> CHR ''[''" by blast
    then show ?thesis
    proof cases
      case 1
      then obtain d r' where w2: "skip_ws r0 = d # r'" using h ws by (cases "skip_ws r0") simp_all
      have l2: "length (d # r') \<le> length r0" using length_skip_ws [of r0] w2 by simp
      show ?thesis
      proof (cases "d = CHR ''}''")
        case True
        then show ?thesis using h ws w2 1 m' by simp
      next
        case False
        then have "map_option skip_ws (scan_members n (d # r')) = Some r"
          using h ws w2 1 by simp
        then obtain r'' where mm: "scan_members n (d # r') = Some r''" and r: "r = skip_ws r''"
          using map_option_skip_ws by blast
        have "length r \<le> length r''" using r length_skip_ws by simp
        then have "2 * (length (d # r') - length r'') \<le> m'" using m m' L l2 by simp
        then have "scan_members m' (d # r') = Some r''" using Suc.IH mm by blast
        then show ?thesis using ws w2 1 False m' r by simp
      qed
    next
      case 2
      then obtain d r' where w2: "skip_ws r0 = d # r'" using h ws by (cases "skip_ws r0") simp_all
      have l2: "length (d # r') \<le> length r0" using length_skip_ws [of r0] w2 by simp
      show ?thesis
      proof (cases "d = CHR '']''")
        case True
        then show ?thesis using h ws w2 2 m' by simp
      next
        case False
        then have "map_option skip_ws (scan_elems n (d # r')) = Some r"
          using h ws w2 2 by simp
        then obtain r'' where mm: "scan_elems n (d # r') = Some r''" and r: "r = skip_ws r''"
          using map_option_skip_ws by blast
        have "length r \<le> length r''" using r length_skip_ws by simp
        then have "2 * (length (d # r') - length r'') \<le> m'" using m m' L l2 by simp
        then have "scan_elems m' (d # r') = Some r''" using Suc.IH mm by blast
        then show ?thesis using ws w2 2 False m' r by simp
      qed
    next
      case 3
      have "scan_value (Suc m') s = scan_value (Suc n) s" using ws 3 by simp
      then show ?thesis using h m' by simp
    qed
  qed
  have e: "scan_elems m s = Some r"
    if h: "scan_elems (Suc n) s = Some r" and m: "2 * (length s - length r) \<le> m" for s r m
  proof -
    obtain r1 where v1: "scan_value n s = Some r1" using h by (cases "scan_value n s") simp_all
    obtain c r' where r1: "r1 = c # r'" using h v1 by (cases r1) simp_all
    have l1: "length r1 < length s" using scan_value_shorter [OF v1] .
    show ?thesis
    proof (cases "c = CHR '',''")
      case True
      then have ee: "scan_elems n r' = Some r" using h v1 r1 by simp
      have l3: "length r < length r'" using scan_elems_shorter [OF ee] .
      obtain m' where m': "m = Suc m'" using m l1 l3 r1 by (cases m) simp_all
      have "Suc (2 * (length s - length r1)) \<le> m'" using m m' l1 l3 r1 by simp
      then have "scan_value m' s = Some r1" using Suc.IH v1 by blast
      moreover have "2 * (length r' - length r) \<le> m'" using m m' l1 l3 r1 by simp
      then have "scan_elems m' r' = Some r" using Suc.IH ee by blast
      ultimately show ?thesis using m' r1 True by simp
    next
      case False
      then have c: "c = CHR '']''" and rr: "r = r'" using h v1 r1 by (simp_all split: if_splits)
      obtain m' where m': "m = Suc m'" using m l1 rr r1 by (cases m) simp_all
      have "Suc (2 * (length s - length r1)) \<le> m'" using m m' l1 rr r1 by simp
      then have "scan_value m' s = Some r1" using Suc.IH v1 by blast
      then show ?thesis using m' r1 c rr by simp
    qed
  qed
  have mb: "scan_members m s = Some r"
    if h: "scan_members (Suc n) s = Some r" and m: "2 * (length s - length r) \<le> m" for s r m
  proof -
    obtain r0 where s: "s = CHR 0x22 # r0" using h by (cases s) (auto split: if_splits)
    obtain r1 where s1: "scan_string r0 = Some r1" using h s by (cases "scan_string r0") simp_all
    obtain r2 where w: "skip_ws r1 = CHR '':'' # r2"
      using h s s1 by (cases "skip_ws r1") (auto split: if_splits)
    obtain r3 where v3: "scan_value n r2 = Some r3" using h s s1 w by (cases "scan_value n r2") simp_all
    obtain e r4 where r3: "r3 = e # r4" using h s s1 w v3 by (cases r3) simp_all
    have l2: "length r2 + 2 < length s"
      using scan_string_shorter [OF s1] length_skip_ws [of r1] w s by simp
    have l3: "length r3 < length r2" using scan_value_shorter [OF v3] .
    show ?thesis
    proof (cases "e = CHR '',''")
      case True
      then have mm: "scan_members n (skip_ws r4) = Some r" using h s s1 w v3 r3 by simp
      have l4: "length r < length (skip_ws r4)" using scan_members_shorter [OF mm] .
      have l5: "length (skip_ws r4) \<le> length r4" by (rule length_skip_ws)
      obtain m' where m': "m = Suc m'" using m l2 l3 l4 l5 r3 by (cases m) simp_all
      have "Suc (2 * (length r2 - length r3)) \<le> m'" using m m' l2 l3 l4 l5 r3 by simp
      then have "scan_value m' r2 = Some r3" using Suc.IH v3 by blast
      moreover have "2 * (length (skip_ws r4) - length r) \<le> m'" using m m' l2 l3 l4 l5 r3 by simp
      then have "scan_members m' (skip_ws r4) = Some r" using Suc.IH mm by blast
      ultimately show ?thesis using m' s s1 w r3 True by simp
    next
      case False
      then have c: "e = CHR ''}''" and rr: "r = r4" using h s s1 w v3 r3 by (simp_all split: if_splits)
      obtain m' where m': "m = Suc m'" using m l2 l3 rr r3 by (cases m) simp_all
      have "Suc (2 * (length r2 - length r3)) \<le> m'" using m m' l2 l3 rr r3 by simp
      then have "scan_value m' r2 = Some r3" using Suc.IH v3 by blast
      then show ?thesis using m' s s1 w r3 c rr by simp
    qed
  qed
  show ?case using v e mb by blast
qed

theorem json_valid_iff:
  "json_valid s \<longleftrightarrow> (\<exists>n. scan_value n s = Some [])"
proof
  assume "json_valid s"
  then show "\<exists>n. scan_value n s = Some []" unfolding json_valid_def by blast
next
  assume "\<exists>n. scan_value n s = Some []"
  then obtain n where "scan_value n s = Some []" by blast
  then have "\<forall>m \<ge> Suc (2 * length s). scan_value m s = Some []"
    using scan_fuel [of n s "[]"] by simp
  then show "json_valid s" unfolding json_valid_def by blast
qed


subsection \<open>The parser accepts only JSON texts\<close>

lemma parse_string_step:
  "parse_string (c # cs) = Some (t, r) \<Longrightarrow>
     (c = CHR 0x22 \<and> r = cs)
     \<or> (\<exists>u t'. length u \<le> length cs \<and> parse_string u = Some (t', r) \<and> scan_string (c # cs) = scan_string u)"
proof (cases "c = CHR 0x22")
  case True
  then show "parse_string (c # cs) = Some (t, r) \<Longrightarrow> ?thesis" by simp
next
  case nq: False
  assume ps: "parse_string (c # cs) = Some (t, r)"
  show ?thesis
  proof (cases "c = CHR 0x5C")
    case True
    with ps nq obtain e r0 where cs: "cs = e # r0" by (cases cs) auto
    show ?thesis
    proof (cases "e = CHR ''u''")
      case eu: True
      with ps nq True cs obtain h1 h2 h3 h4 r' k t' where
        r0: "r0 = h1 # h2 # h3 # h4 # r'" and k: "hex4 h1 h2 h3 h4 = Some k" and p: "parse_string r' = Some (t', r)"
        by (auto simp: cons_result_def split: list.splits if_splits option.splits)
      have "scan_string (c # cs) = scan_string r'" using True nq cs eu r0 k by simp
      then show ?thesis using p cs r0 by (intro disjI2 exI [where x = r'] exI [where x = t']) simp
    next
      case nu: False
      with ps nq True cs obtain t' where p: "parse_string r0 = Some (t', r)"
        and ee: "e \<in> set [CHR 0x22, CHR 0x5C, CHR ''/'', CHR ''b'', CHR ''f'', CHR ''n'', CHR ''r'', CHR ''t'']"
        by (auto simp: cons_result_def split: if_splits)
      have "scan_string (c # cs) = scan_string r0" using True nq cs ee by simp
      then show ?thesis using p cs by (intro disjI2 exI [where x = r0] exI [where x = t']) simp
    qed
  next
    case False
    with ps nq obtain t' where p: "parse_string cs = Some (t', r)" and ctl: "\<not> of_char c < (32::nat)"
      by (auto simp: cons_result_def split: if_splits)
    have "scan_string (c # cs) = scan_string cs" using False nq ctl by simp
    then show ?thesis using p by (intro disjI2 exI [where x = cs] exI [where x = t']) simp
  qed
qed

lemma parse_string_scan:
  "parse_string s = Some (t, r) \<Longrightarrow> scan_string s = Some r"
proof (induction "length s" arbitrary: s t rule: less_induct)
  case less
  then obtain c cs where s: "s = c # cs" by (cases s) auto
  from parse_string_step [of c cs t r] less.prems s
  consider "c = CHR 0x22" "r = cs"
    | u t' where "length u \<le> length cs" "parse_string u = Some (t', r)" "scan_string (c # cs) = scan_string u"
    by auto
  then show ?case
  proof cases
    case 1
    then show ?thesis using s by simp
  next
    case (2 u t')
    then show ?thesis using less.hyps [of u t'] s by simp
  qed
qed

lemma parse_digits_rest:
  "snd (parse_digits s acc) = dropWhile is_digit s"
  by (induction s arbitrary: acc) simp_all

lemma parse_unsigned_scan:
  assumes "parse_unsigned b s = Some (i, r)"
  shows "scan_int_part s = Some r \<and> scan_frac r = Some r \<and> scan_exp r = Some r"
proof -
  have stop: "scan_frac r = Some r \<and> scan_exp r = Some r"
    if "\<not> starts_with (\<lambda>c. c = CHR ''.'' \<or> c = CHR ''e'' \<or> c = CHR ''E'') r"
    using that by (cases r) (simp_all add: starts_with_def scan_frac_def scan_exp_def)
  obtain c r0 where s: "s = c # r0" using assms by (cases s) (simp_all add: parse_unsigned_def)
  show ?thesis
  proof (cases "c = CHR ''0''")
    case True
    then show ?thesis
      using assms s stop by (auto simp: parse_unsigned_def number_end_def scan_int_part_def split: if_splits)
  next
    case False
    obtain n rest where pd: "parse_digits (c # r0) 0 = (n, rest)" by (cases "parse_digits (c # r0) 0")
    have d: "is_digit c" using assms s False by (simp add: parse_unsigned_def split: if_splits)
    have "rest = dropWhile is_digit r0" using parse_digits_rest [of "c # r0" 0] pd d by simp
    then show ?thesis
      using assms s False pd d stop by (auto simp: parse_unsigned_def number_end_def scan_int_part_def split: if_splits)
  qed
qed

lemma parse_number_scan:
  "parse_number s = Some (i, r) \<Longrightarrow> scan_number s = Some r"
proof -
  assume p: "parse_number s = Some (i, r)"
  then obtain c r0 where s: "s = c # r0" by (cases s) (simp_all add: parse_number_def)
  show ?thesis
  proof (cases "c = CHR ''-''")
    case True
    then show ?thesis
      using p s parse_unsigned_scan [of True r0 i r] by (simp add: parse_number_def scan_number_def)
  next
    case False
    then show ?thesis
      using p s parse_unsigned_scan [of False s i r] by (simp add: parse_number_def scan_number_def)
  qed
qed


lemma map_option_parse:
  "map_option (\<lambda>(x, r). (f x, skip_ws r)) p = Some (v, r) \<Longrightarrow>
     \<exists>x r'. p = Some (x, r') \<and> r = skip_ws r'"
  by (cases p) auto

lemma parse_scan:
  "(parse_value n s = Some (v, r) \<longrightarrow> scan_value n s = Some r)
   \<and> (parse_elems n s = Some (vs, r) \<longrightarrow> scan_elems n s = Some r)
   \<and> (parse_members n s = Some (kvs, r) \<longrightarrow> scan_members n s = Some r)"
proof (induction n arbitrary: s r v vs kvs)
  case 0
  then show ?case by simp
next
  case (Suc n)
  have v: "scan_value (Suc n) s = Some r" if h: "parse_value (Suc n) s = Some (v, r)" for s r v
  proof -
    obtain c r0 where ws: "skip_ws s = c # r0" using h by (cases "skip_ws s") simp_all
    consider "c = CHR ''{''" | "c = CHR ''[''" | "c = CHR 0x22" | "c \<noteq> CHR ''{''" "c \<noteq> CHR ''[''" "c \<noteq> CHR 0x22"
      by blast
    then show ?thesis
    proof cases
      case 1
      then obtain d r' where w2: "skip_ws r0 = d # r'" using h ws by (cases "skip_ws r0") simp_all
      show ?thesis
      proof (cases "d = CHR ''}''")
        case True
        then show ?thesis using h ws w2 1 by simp
      next
        case False
        then have "map_option (\<lambda>(kvs, r''). (JObj kvs, skip_ws r'')) (parse_members n (d # r')) = Some (v, r)"
          using h ws w2 1 by simp
        from map_option_parse [OF this] obtain kvs r'' where "parse_members n (d # r') = Some (kvs, r'')" "r = skip_ws r''"
          by blast
        then show ?thesis using Suc.IH ws w2 1 False by simp
      qed
    next
      case 2
      then obtain d r' where w2: "skip_ws r0 = d # r'" using h ws by (cases "skip_ws r0") simp_all
      show ?thesis
      proof (cases "d = CHR '']''")
        case True
        then show ?thesis using h ws w2 2 by simp
      next
        case False
        then have "map_option (\<lambda>(vs, r''). (JArr vs, skip_ws r'')) (parse_elems n (d # r')) = Some (v, r)"
          using h ws w2 2 by simp
        from map_option_parse [OF this] obtain vs r'' where "parse_elems n (d # r') = Some (vs, r'')" "r = skip_ws r''"
          by blast
        then show ?thesis using Suc.IH ws w2 2 False by simp
      qed
    next
      case 3
      then have "map_option (\<lambda>(str, r'). (JStr str, skip_ws r')) (parse_string r0) = Some (v, r)"
        using h ws by simp
      from map_option_parse [OF this] obtain t r'' where "parse_string r0 = Some (t, r'')" "r = skip_ws r''"
        by blast
      then show ?thesis using parse_string_scan ws 3 by simp
    next
      case 4
      show ?thesis
      proof (cases "take 4 (c # r0) = ''true'' \<or> take 5 (c # r0) = ''false'' \<or> take 4 (c # r0) = ''null''")
        case True
        then show ?thesis using h ws 4 by (auto split: if_splits)
      next
        case False
        then have "map_option (\<lambda>(i, r'). (JNum i, skip_ws r')) (parse_number (c # r0)) = Some (v, r)"
          using h ws 4 by (auto split: if_splits)
        from map_option_parse [OF this] obtain i r'' where "parse_number (c # r0) = Some (i, r'')" "r = skip_ws r''"
          by blast
        then show ?thesis using parse_number_scan ws 4 False by (auto split: if_splits)
      qed
    qed
  qed
  have e: "scan_elems (Suc n) s = Some r" if h: "parse_elems (Suc n) s = Some (vs, r)" for s r vs
  proof -
    obtain v1 r1 where p1: "parse_value n s = Some (v1, r1)"
      using h by (cases "parse_value n s") auto
    then have s1: "scan_value n s = Some r1" using Suc.IH by blast
    obtain c r' where r1: "r1 = c # r'" using h p1 by (cases r1) simp_all
    show ?thesis
    proof (cases "c = CHR '',''")
      case True
      then have "map_option (\<lambda>(vs, r''). (v1 # vs, r'')) (parse_elems n r') = Some (vs, r)"
        using h p1 r1 by simp
      then obtain vs' where "parse_elems n r' = Some (vs', r)" by (cases "parse_elems n r'") auto
      then show ?thesis using Suc.IH s1 r1 True by simp
    next
      case False
      then show ?thesis using h p1 s1 r1 by (simp split: if_splits)
    qed
  qed
  have m: "scan_members (Suc n) s = Some r" if h: "parse_members (Suc n) s = Some (kvs, r)" for s r kvs
  proof -
    obtain r0 where s: "s = CHR 0x22 # r0" using h by (cases s) (auto split: if_splits)
    obtain k r1 where p1: "parse_string r0 = Some (k, r1)" using h s by (cases "parse_string r0") auto
    obtain r2 where w: "skip_ws r1 = CHR '':'' # r2"
      using h s p1 by (cases "skip_ws r1") (auto split: if_splits)
    obtain v3 r3 where p3: "parse_value n r2 = Some (v3, r3)"
      using h s p1 w by (cases "parse_value n r2") auto
    have s3: "scan_value n r2 = Some r3" using Suc.IH p3 by blast
    obtain e r4 where r3: "r3 = e # r4" using h s p1 w p3 by (cases r3) simp_all
    have s1: "scan_string r0 = Some r1" using parse_string_scan [OF p1] .
    show ?thesis
    proof (cases "e = CHR '',''")
      case True
      then have "map_option (\<lambda>(kvs, r5). ((k, v3) # kvs, r5)) (parse_members n (skip_ws r4)) = Some (kvs, r)"
        using h s p1 w p3 r3 by simp
      then obtain kvs' where "parse_members n (skip_ws r4) = Some (kvs', r)"
        by (cases "parse_members n (skip_ws r4)") auto
      then show ?thesis using Suc.IH s s1 w s3 r3 True by simp
    next
      case False
      then show ?thesis using h s p1 s1 w p3 s3 r3 by (simp split: if_splits)
    qed
  qed
  show ?case using v e m by blast
qed

lemma json_parse_valid:
  "json_parse s = Some v \<Longrightarrow> json_valid s"
proof -
  assume "json_parse s = Some v"
  then have "parse_value (Suc (length s)) s = Some (v, [])"
    by (simp add: json_parse_def split: option.splits prod.splits list.splits)
  then have "scan_value (Suc (length s)) s = Some []" using parse_scan by blast
  then show "json_valid s" using json_valid_iff by blast
qed


text \<open>The two notions differ exactly on texts outside the value model: \<open>[1.5]\<close> is a
  JSON text the parser does not build, while \<open>[\<close>, a trailing comma and a leading
  zero are syntax errors.\<close>

lemma json_valid_examples:
  "json_valid ''[1.5]'' \<and> json_parse ''[1.5]'' = None
   \<and> \<not> json_valid ''['' \<and> \<not> json_valid ''[1,]'' \<and> \<not> json_valid ''01''"
  by code_simp

end
