(* ===== verification/Task_Store.thy ===== *)
theory Task_Store
  imports Json_Syntax
begin

text \<open>
  The task data of \<open>TodoComponent\<close> and its persisted form.  \<open>ITask\<close>
  (src/app/model/task.ts, not among the sources; its three fields are those of the
  specification, section 3, and of the object literal in \<open>addTask\<close>) is a record;
  its field \<open>done\<close> is called \<open>task_done\<close> here, \<open>done\<close> being a keyword of Isar.
  JavaScript objects have identity: the component's arrays hold references to task
  objects and \<open>editTask\<close> mutates an object in place.  The model therefore keeps an
  explicit heap (a list of task objects, a reference is an index) and the arrays are
  lists of references; \<open>deref\<close> reads the task values an array denotes.

  \<open>localStorage\<close> is a map from keys to strings.  \<open>updateLocalStorage\<close> writes
  \<open>JSON.stringify\<close> of both arrays; \<open>ngOnInit\<close> reads them back with
  \<open>JSON.parse\<close>.  A stored value that parses but is not an array of task objects
  (exactly the fields description:string, done:boolean, editing:boolean) violates the
  TypeScript type of the field it is assigned to; the model reports it as an error
  rather than following the ill-typed object through the component.
\<close>

record ITask =
  description :: string
  task_done :: bool
  editing :: bool

type_synonym heap = "ITask list"
type_synonym storage = "string \<rightharpoonup> string"

definition deref :: "heap \<Rightarrow> ref list \<Rightarrow> ITask list" where
  "deref h rs = map (\<lambda>r. h ! r) rs"

subsection \<open>The persisted form of a task\<close>

definition task_to_json :: "ITask \<Rightarrow> json" where
  "task_to_json t =
     JObj [(''description'', JStr (description t)), (''done'', JBool (task_done t)),
           (''editing'', JBool (editing t))]"

definition tasks_to_json :: "ITask list \<Rightarrow> json" where
  "tasks_to_json ts = JArr (map task_to_json ts)"

definition json_to_task :: "json \<Rightarrow> ITask option" where
  "json_to_task j =
     (case j of
        JObj kvs \<Rightarrow>
          (if length kvs = 3 \<and> distinct (map fst kvs) then
             (case (map_of kvs ''description'', map_of kvs ''done'', map_of kvs ''editing'') of
                (Some (JStr d), Some (JBool dn), Some (JBool e)) \<Rightarrow>
                  Some \<lparr>description = d, task_done = dn, editing = e\<rparr>
              | _ \<Rightarrow> None)
           else None)
      | _ \<Rightarrow> None)"

definition json_to_tasks :: "json \<Rightarrow> ITask list option" where
  "json_to_tasks j = (case j of JArr vs \<Rightarrow> those (map json_to_task vs) | _ \<Rightarrow> None)"

subsection \<open>Reading an array back from localStorage\<close>

text \<open>\<open>JSON.parse\<close> throws on an entry that is not a JSON text: the exception leaves
  \<open>ngOnInit\<close>.  A JSON text whose value the model does not represent (a number with a
  fraction or an exponent, a character above 0xFF) and a value that is not an array of
  task objects are where the model stops following the program; they are reported as
  errors of their own.\<close>

datatype init_error = Json_Syntax_Error string | Unmodelled_Json string | Not_Task_Array string

text \<open>
  \<^verbatim>\<open>const storedTasks = localStorage.getItem('tasks');
  if (storedTasks) { this.tasks = JSON.parse(storedTasks); }\<close>
  \<open>Inr None\<close>: the entry is absent or the empty string (falsy), the field keeps its
  value; \<open>Inr (Some ts)\<close>: the field is assigned the parsed tasks.
\<close>

definition stored_list :: "storage \<Rightarrow> string \<Rightarrow> init_error + ITask list option" where
  "stored_list st key =
     (case st key of
        None \<Rightarrow> Inr None
      | Some s \<Rightarrow>
          (if s = [] then Inr None
           else (case json_parse s of
                   None \<Rightarrow> (if json_valid s then Inl (Unmodelled_Json key) else Inl (Json_Syntax_Error key))
                 | Some v \<Rightarrow>
                     (case json_to_tasks v of
                        None \<Rightarrow> Inl (Not_Task_Array key)
                      | Some ts \<Rightarrow> Inr (Some ts)))))"

text \<open>What a fresh start of the component restores from a storage: both arrays, an
  absent entry read as the empty array the fields are initialised with.\<close>

definition restore :: "storage \<Rightarrow> init_error + ITask list \<times> ITask list" where
  "restore st =
     (case stored_list st ''tasks'' of
        Inl e \<Rightarrow> Inl e
      | Inr t \<Rightarrow>
          (case stored_list st ''done'' of
             Inl e \<Rightarrow> Inl e
           | Inr d \<Rightarrow> Inr (case t of None \<Rightarrow> [] | Some ts \<Rightarrow> ts,
                          case d of None \<Rightarrow> [] | Some ds \<Rightarrow> ds)))"

text \<open>The storage writes of \<open>updateLocalStorage\<close>, on the task values.\<close>

definition persist :: "ITask list \<Rightarrow> ITask list \<Rightarrow> storage \<Rightarrow> storage" where
  "persist ts ds st =
     st(''tasks'' \<mapsto> json_stringify (tasks_to_json ts),
        ''done'' \<mapsto> json_stringify (tasks_to_json ds))"

subsection \<open>Lemmas\<close>

lemma json_to_task_to_json [simp]:
  "json_to_task (task_to_json t) = Some t"
  by (simp add: json_to_task_def task_to_json_def)

lemma those_map_Some:
  "(\<forall>x \<in> set xs. f (g x) = Some x) \<Longrightarrow> those (map (\<lambda>x. f (g x)) xs) = Some xs"
  by (induction xs) auto

lemma json_to_tasks_to_json [simp]:
  "json_to_tasks (tasks_to_json ts) = Some ts"
  using those_map_Some [of ts json_to_task task_to_json]
  by (simp add: json_to_tasks_def tasks_to_json_def comp_def)

lemma json_stringify_nonempty:
  "json_stringify v \<noteq> []"
  using json_stringify_Cons [of v] by auto

lemma stored_list_persisted:
  "st key = Some (json_stringify (tasks_to_json ts)) \<Longrightarrow> stored_list st key = Inr (Some ts)"
  by (simp add: stored_list_def json_parse_stringify json_stringify_nonempty)

lemma restore_of_persist:
  "restore (persist ts ds st) = Inr (ts, ds)"
  by (simp add: restore_def persist_def stored_list_persisted)

lemma deref_append [simp]:
  "deref h (rs @ qs) = deref h rs @ deref h qs"
  by (simp add: deref_def)

lemma deref_update_other:
  "r \<notin> set rs \<Longrightarrow> deref (h[r := t]) rs = deref h rs"
  by (auto simp: deref_def intro!: nth_list_update_neq)

lemma deref_append_heap:
  "\<forall>r \<in> set rs. r < length h \<Longrightarrow> deref (h @ ts) rs = deref h rs"
  by (simp add: deref_def nth_append)

text \<open>C5: writing both arrays with \<open>updateLocalStorage\<close> and restoring them on the
  next start gives back the same two ordered sequences (the specification's
  serialisation round trip, section 8), whatever else the storage holds.\<close>

theorem restore_persist:
  "restore (persist ts ds st) = Inr (ts, ds)"
  by (rule restore_of_persist)

end
