(* ===== verification/Drag_Drop.thy ===== *)
theory Drag_Drop
  imports Todo_Prelude
begin

text \<open>
  The two array helpers of \<open>@angular/cdk/drag-drop\<close> that \<open>TodoComponent.drop\<close>
  calls (library code, not part of the repository; modelled from the library's
  published implementation):
  \<^verbatim>\<open>
  function clamp(value, max) { return Math.max(0, Math.min(max, value)); }
  function moveItemInArray(array, fromIndex, toIndex) {
    const from = clamp(fromIndex, array.length - 1);
    const to = clamp(toIndex, array.length - 1);
    if (from === to) { return; }
    const target = array[from];
    const delta = to < from ? -1 : 1;
    for (let i = from; i !== to; i += delta) { array[i] = array[i + delta]; }
    array[to] = target;
  }
  function transferArrayItem(currentArray, targetArray, currentIndex, targetIndex) {
    const from = clamp(currentIndex, currentArray.length - 1);
    const to = clamp(targetIndex, targetArray.length);
    if (currentArray.length) {
      targetArray.splice(to, 0, currentArray.splice(from, 1)[0]);
    }
  }
  \<close>
  The shifting loop has no syntactic termination argument (its guard is \<open>i !== to\<close>
  with a fixed step), so it is a \<^theory_text>\<open>partial_function (option)\<close>: \<open>None\<close> is
  "runs forever".  The main theorem shows it always returns, and returns the reference
  semantics "remove at \<open>from\<close>, insert at \<open>to\<close>" of the specification.
\<close>

definition clamp :: "int \<Rightarrow> int \<Rightarrow> int" where
  "clamp v mx = max 0 (min mx v)"

partial_function (option) move_loop :: "'a list \<Rightarrow> int \<Rightarrow> int \<Rightarrow> int \<Rightarrow> 'a list option" where
  "move_loop array i to delta =
     (if i = to then Some array
      else move_loop (array[nat i := array ! nat (i + delta)]) (i + delta) to delta)"

declare move_loop.simps [code]

definition moveItemInArray :: "'a list \<Rightarrow> int \<Rightarrow> int \<Rightarrow> 'a list option" where
  "moveItemInArray array fromIndex toIndex =
     (let from = clamp fromIndex (int (length array) - 1);
          to = clamp toIndex (int (length array) - 1)
      in if from = to then Some array
         else (let target = array ! nat from;
                   delta = (if to < from then -1 else 1)
               in map_option (\<lambda>a. a[nat to := target]) (move_loop array from to delta)))"

definition transferArrayItem ::
  "'a list \<Rightarrow> 'a list \<Rightarrow> int \<Rightarrow> int \<Rightarrow> 'a list \<times> 'a list" where
  "transferArrayItem currentArray targetArray currentIndex targetIndex =
     (let from = clamp currentIndex (int (length currentArray) - 1);
          to = clamp targetIndex (int (length targetArray))
      in if currentArray \<noteq> []
         then (remove_at (nat from) currentArray,
               insert_at (nat to) (currentArray ! nat from) targetArray)
         else (currentArray, targetArray))"

subsection \<open>Reference semantics\<close>

text \<open>The specification's reorder: remove the element at the (clamped) source index
  and insert it at the (clamped) destination index.\<close>

definition move_ref :: "'a list \<Rightarrow> int \<Rightarrow> int \<Rightarrow> 'a list" where
  "move_ref xs f t =
     (if xs = [] then xs
      else (let from = nat (clamp f (int (length xs) - 1));
                to = nat (clamp t (int (length xs) - 1))
            in insert_at to (xs ! from) (remove_at from xs)))"

subsection \<open>The shifting loop\<close>

lemma clamp_bounds:
  "0 \<le> mx \<Longrightarrow> 0 \<le> clamp v mx \<and> clamp v mx \<le> mx"
  by (simp add: clamp_def)

lemma move_loop_up:
  "i + n < length xs \<Longrightarrow>
     move_loop xs (int i) (int (i + n)) 1 =
       Some (map (\<lambda>k. if i \<le> k \<and> k < i + n then xs ! Suc k else xs ! k) [0..<length xs])"
proof (induction n arbitrary: xs i)
  case 0
  then show ?case
    by (auto simp: move_loop.simps intro!: nth_equalityI)
next
  case (Suc n)
  let ?xs' = "xs[i := xs ! Suc i]"
  have ih: "move_loop ?xs' (int (Suc i)) (int (Suc i + n)) 1 =
      Some (map (\<lambda>k. if Suc i \<le> k \<and> k < Suc i + n then ?xs' ! Suc k else ?xs' ! k)
              [0..<length ?xs'])"
    using Suc.prems by (intro Suc.IH) simp
  have step: "move_loop xs (int i) (int (i + Suc n)) 1 =
      move_loop ?xs' (int (Suc i)) (int (Suc i + n)) 1"
    by (subst move_loop.simps) (simp add: add.commute Suc_nat_eq_nat_zadd1 [symmetric])
  show ?case
    unfolding step ih using Suc.prems
    by (auto simp: nth_list_update)
qed

lemma move_loop_down:
  "t + n < length xs \<Longrightarrow>
     move_loop xs (int (t + n)) (int t) (-1) =
       Some (map (\<lambda>k. if t < k \<and> k \<le> t + n then xs ! (k - 1) else xs ! k) [0..<length xs])"
proof (induction n arbitrary: xs)
  case 0
  then show ?case
    by (auto simp: move_loop.simps intro!: nth_equalityI)
next
  case (Suc n)
  let ?xs' = "xs[t + Suc n := xs ! (t + n)]"
  have ih: "move_loop ?xs' (int (t + n)) (int t) (-1) =
      Some (map (\<lambda>k. if t < k \<and> k \<le> t + n then ?xs' ! (k - 1) else ?xs' ! k)
              [0..<length ?xs'])"
    using Suc.prems by (intro Suc.IH) simp
  have step: "move_loop xs (int (t + Suc n)) (int t) (-1) =
      move_loop ?xs' (int (t + n)) (int t) (-1)"
    by (subst move_loop.simps) (simp add: Suc_nat_eq_nat_zadd1 [symmetric] nat_int_add)
  show ?case
    unfolding step ih using Suc.prems
    by (auto simp: nth_list_update)
qed

lemma move_up_result:
  assumes "a < b" and "b < length xs"
  shows "(map (\<lambda>k. if a \<le> k \<and> k < b then xs ! Suc k else xs ! k) [0..<length xs])[b := xs ! a]
           = insert_at b (xs ! a) (remove_at a xs)"
proof (rule nth_equalityI)
  show "length ((map (\<lambda>k. if a \<le> k \<and> k < b then xs ! Suc k else xs ! k) [0..<length xs])[b := xs ! a])
        = length (insert_at b (xs ! a) (remove_at a xs))"
    using assms by (simp add: length_insert_at length_remove_at)
next
  fix k
  assume "k < length ((map (\<lambda>k. if a \<le> k \<and> k < b then xs ! Suc k else xs ! k) [0..<length xs])[b := xs ! a])"
  then have k: "k < length xs" by simp
  have rl: "length (remove_at a xs) = length xs - 1"
    using assms by (simp add: length_remove_at)
  show "(map (\<lambda>k. if a \<le> k \<and> k < b then xs ! Suc k else xs ! k) [0..<length xs])[b := xs ! a] ! k
        = insert_at b (xs ! a) (remove_at a xs) ! k"
    using assms k rl by (auto simp: nth_list_update nth_insert_at_gen nth_remove_at)
qed

lemma move_down_result:
  assumes "b < a" and "a < length xs"
  shows "(map (\<lambda>k. if b < k \<and> k \<le> a then xs ! (k - 1) else xs ! k) [0..<length xs])[b := xs ! a]
           = insert_at b (xs ! a) (remove_at a xs)"
proof (rule nth_equalityI)
  show "length ((map (\<lambda>k. if b < k \<and> k \<le> a then xs ! (k - 1) else xs ! k) [0..<length xs])[b := xs ! a])
        = length (insert_at b (xs ! a) (remove_at a xs))"
    using assms by (simp add: length_insert_at length_remove_at)
next
  fix k
  assume "k < length ((map (\<lambda>k. if b < k \<and> k \<le> a then xs ! (k - 1) else xs ! k) [0..<length xs])[b := xs ! a])"
  then have k: "k < length xs" by simp
  have rl: "length (remove_at a xs) = length xs - 1"
    using assms by (simp add: length_remove_at)
  show "(map (\<lambda>k. if b < k \<and> k \<le> a then xs ! (k - 1) else xs ! k) [0..<length xs])[b := xs ! a] ! k
        = insert_at b (xs ! a) (remove_at a xs) ! k"
    using assms k rl by (auto simp: nth_list_update nth_insert_at_gen nth_remove_at)
qed

subsection \<open>moveItemInArray always returns, and returns the reference result\<close>

text \<open>For every array and every pair of indices (negative or beyond the end
  included), the CDK loop terminates and its result is the specification's
  remove-then-insert reorder at the clamped indices.\<close>

lemma moveItemInArray_move_ref:
  "moveItemInArray xs f t = Some (move_ref xs f t)"
proof (cases "xs = []")
  case True
  then show ?thesis
    by (simp add: moveItemInArray_def move_ref_def clamp_def)
next
  case False
  define a where "a = nat (clamp f (int (length xs) - 1))"
  define b where "b = nat (clamp t (int (length xs) - 1))"
  have nn: "0 \<le> int (length xs) - 1" using False by simp
  have fa: "clamp f (int (length xs) - 1) = int a" and a: "a < length xs"
    using clamp_bounds [OF nn, of f] by (auto simp: a_def)
  have tb: "clamp t (int (length xs) - 1) = int b" and b: "b < length xs"
    using clamp_bounds [OF nn, of t] by (auto simp: b_def)
  have ref: "move_ref xs f t = insert_at b (xs ! a) (remove_at a xs)"
    using False by (simp add: move_ref_def a_def b_def Let_def)
  consider "a = b" | "a < b" | "b < a" by arith
  then show ?thesis
  proof cases
    case 1
    then show ?thesis
      using a by (simp add: moveItemInArray_def fa tb ref insert_at_remove_at_same)
  next
    case 2
    have loop: "move_loop xs (int a) (int b) 1 =
        Some (map (\<lambda>k. if a \<le> k \<and> k < b then xs ! Suc k else xs ! k) [0..<length xs])"
      using move_loop_up [of a "b - a" xs] 2 b by simp
    show ?thesis
      using 2 b by (simp add: moveItemInArray_def fa tb ref loop move_up_result)
  next
    case 3
    have loop: "move_loop xs (int a) (int b) (-1) =
        Some (map (\<lambda>k. if b < k \<and> k \<le> a then xs ! (k - 1) else xs ! k) [0..<length xs])"
      using move_loop_down [of b "a - b" xs] 3 a by simp
    show ?thesis
      using 3 a by (simp add: moveItemInArray_def fa tb ref loop move_down_result)
  qed
qed

lemma move_ref_mset:
  "mset (move_ref xs f t) = mset xs"
proof (cases "xs = []")
  case True
  then show ?thesis by (simp add: move_ref_def)
next
  case False
  define a where "a = nat (clamp f (int (length xs) - 1))"
  have nn: "0 \<le> int (length xs) - 1" using False by simp
  have a: "a < length xs"
    using clamp_bounds [OF nn, of f] by (auto simp: a_def)
  show ?thesis
    using False mset_remove_at [OF a]
    by (simp add: move_ref_def a_def [symmetric] Let_def mset_insert_at)
qed

text \<open>A drop inside one list only permutes it: the multiset of its elements is
  unchanged, whatever indices the drag-and-drop event carries.\<close>

lemma moveItemInArray_permutes:
  "moveItemInArray xs f t = Some ys \<Longrightarrow> mset ys = mset xs"
  by (auto simp: moveItemInArray_move_ref move_ref_mset)

subsection \<open>transferArrayItem\<close>

text \<open>A transfer between two lists moves exactly one element when the source is
  non-empty: it leaves the source without the element at the clamped source index
  and puts that element at the clamped destination index; the union of the two
  lists is unchanged.\<close>

lemma transferArrayItem_moves:
  assumes "c \<noteq> []"
  shows "(let from = nat (clamp i (int (length c) - 1));
              to = nat (clamp j (int (length g)))
          in transferArrayItem c g i j = (remove_at from c, insert_at to (c ! from) g)
             \<and> insert_at to (c ! from) g ! to = c ! from
             \<and> mset c + mset g =
                 mset (remove_at from c) + mset (insert_at to (c ! from) g))"
proof -
  define src where "src = nat (clamp i (int (length c) - 1))"
  define dst where "dst = nat (clamp j (int (length g)))"
  have nn: "0 \<le> int (length c) - 1" using assms by simp
  have fi: "clamp i (int (length c) - 1) = int src" and f: "src < length c"
    using clamp_bounds [OF nn, of i] by (auto simp: src_def)
  have tj: "clamp j (int (length g)) = int dst" and t: "dst \<le> length g"
    using clamp_bounds [of "int (length g)" j] by (auto simp: dst_def)
  have tr: "transferArrayItem c g i j = (remove_at src c, insert_at dst (c ! src) g)"
    using assms by (simp add: transferArrayItem_def fi tj)
  have ms: "mset c + mset g = mset (remove_at src c) + mset (insert_at dst (c ! src) g)"
    using mset_remove_at [OF f] by (simp add: mset_insert_at)
  show ?thesis
    using tr ms t by (simp add: src_def [symmetric] dst_def [symmetric] nth_insert_at)
qed

lemma transferArrayItem_empty:
  "transferArrayItem [] g i j = ([], g)"
  by (simp add: transferArrayItem_def)

lemma transferArrayItem_mset:
  "mset (fst (transferArrayItem c g i j)) + mset (snd (transferArrayItem c g i j))
     = mset c + mset g"
proof (cases "c = []")
  case True
  then show ?thesis by (simp add: transferArrayItem_empty)
next
  case False
  then show ?thesis
    using transferArrayItem_moves [OF False, of i j g] by (simp add: Let_def)
qed

subsection \<open>Both helpers commute with mapping the elements\<close>

lemma clamp_index:
  "xs \<noteq> [] \<Longrightarrow> nat (clamp i (int (length xs) - 1)) < length xs"
  using clamp_bounds [of "int (length xs) - 1" i] by auto

lemma map_move_ref:
  "map f (move_ref xs i j) = move_ref (map f xs) i j"
  by (simp add: move_ref_def Let_def map_insert_at map_remove_at clamp_index)

lemma map_transferArrayItem:
  "transferArrayItem (map f c) (map f g) i j = map_prod (map f) (map f) (transferArrayItem c g i j)"
  by (simp add: transferArrayItem_def Let_def map_insert_at map_remove_at clamp_index)

end
