(* ===== verification/Notification_Service.thy ===== *)
theory Notification_Service
  imports Todo_Prelude
begin

text \<open>
  \<open>NotificationService\<close> (src/src/app/notification.service.ts) over a model of the
  browser's Notification API.  The browser part is explicit state: whether the API
  exists (\<open>'Notification' in window\<close>), the current permission, the number of
  \<open>Notification.requestPermission()\<close> promises not yet settled, the notifications
  constructed so far (\<open>new Notification(title, {body})\<close>, as title/body pairs, in
  order) and the console log.  A promise settles by the environment step
  \<open>permission_settled\<close>, which runs the \<open>.then\<close> callback of the service.
\<close>

datatype permission = Perm_Default | Perm_Granted | Perm_Denied

record notif_state =
  supported :: bool
  permission :: permission
  pending_requests :: nat
  shown :: "(string \<times> string) list"
  console :: "string list"

definition showNotification :: "string \<Rightarrow> notif_state \<Rightarrow> notif_state" where
  "showNotification message n =
     (if supported n \<and> permission n = Perm_Granted
      then n\<lparr>shown := shown n @ [(''Todo List'', message)]\<rparr>
      else n)"

definition requestPermission :: "notif_state \<Rightarrow> notif_state" where
  "requestPermission n =
     (if supported n \<and> permission n \<noteq> Perm_Granted
      then n\<lparr>pending_requests := Suc (pending_requests n)\<rparr>
      else n)"

text \<open>The browser settles one outstanding request with the user's answer \<open>p\<close> (the
  permission becomes \<open>p\<close>), then the service's callback logs when it is granted.
  It is enabled only while a request is outstanding.\<close>

definition permission_settled :: "permission \<Rightarrow> notif_state \<Rightarrow> notif_state option" where
  "permission_settled p n =
     (if pending_requests n = 0 then None
      else Some (n\<lparr>permission := p, pending_requests := pending_requests n - 1,
                   console := console n @
                     (if p = Perm_Granted then [''Notification permission granted!''] else [])\<rparr>))"

subsection \<open>Properties\<close>

text \<open>A notification is displayed exactly when the API exists and permission is
  granted; it carries the fixed title and the message, and is appended after the
  earlier ones.  Otherwise the call is silently a no-op.\<close>

theorem showNotification_shown:
  "shown (showNotification m n) =
     shown n @ (if supported n \<and> permission n = Perm_Granted then [(''Todo List'', m)] else [])"
  by (simp add: showNotification_def)

lemma showNotification_frame [simp]:
  "supported (showNotification m n) = supported n"
  "permission (showNotification m n) = permission n"
  "pending_requests (showNotification m n) = pending_requests n"
  "console (showNotification m n) = console n"
  by (simp_all add: showNotification_def)

lemma showNotification_not_granted [simp]:
  "permission n \<noteq> Perm_Granted \<Longrightarrow> showNotification m n = n"
  by (simp add: showNotification_def)

text \<open>Requesting permission changes nothing but the count of outstanding
  requests, and asks only when the API exists and permission is not yet granted;
  it never displays anything.\<close>

theorem requestPermission_effect:
  "requestPermission n =
     n\<lparr>pending_requests := pending_requests n +
        (if supported n \<and> permission n \<noteq> Perm_Granted then 1 else 0)\<rparr>"
  by (simp add: requestPermission_def)

lemma requestPermission_frame [simp]:
  "supported (requestPermission n) = supported n"
  "permission (requestPermission n) = permission n"
  "shown (requestPermission n) = shown n"
  "console (requestPermission n) = console n"
  by (simp_all add: requestPermission_def)

lemma permission_settled_frame:
  "permission_settled p n = Some n' \<Longrightarrow>
     supported n' = supported n \<and> shown n' = shown n \<and> permission n' = p"
  by (auto simp: permission_settled_def split: if_splits)

end
