(* ===== verification/Browser_Timers.thy ===== *)
theory Browser_Timers
  imports Todo_Prelude
begin

text \<open>
  The browser's repeating timers, as far as \<open>TodoComponent\<close> uses them
  (\<open>setInterval\<close> and \<open>clearInterval\<close>; platform code, modelled from the HTML and
  WebIDL standards).  Live timers map their handle to the delay they repeat with;
  handles are handed out from a counter starting at 1, so every handle is truthy.

  The delay argument of \<open>setInterval\<close> is a WebIDL \<open>long\<close>: the number is converted
  with ToInt32, i.e. taken modulo \<open>2^32\<close> and read as two's complement, and the HTML
  timer steps then replace a negative delay by 0.  This is modelled on
  \<open>32 word\<close>: \<open>sint (word_of_int ms)\<close> is exactly ToInt32 for an integral \<open>ms\<close>.
  (The further clamp of nested timers to 4 ms is not modelled.)
\<close>

record timer_env =
  live :: "nat \<rightharpoonup> int"
  next_handle :: nat

definition timers_init :: timer_env where
  "timers_init = \<lparr>live = Map.empty, next_handle = 1\<rparr>"

definition webidl_long :: "int \<Rightarrow> int" where
  "webidl_long ms = sint (word_of_int ms :: 32 word)"

definition timer_delay :: "int \<Rightarrow> int" where
  "timer_delay ms = max 0 (webidl_long ms)"

definition setInterval :: "int \<Rightarrow> timer_env \<Rightarrow> nat \<times> timer_env" where
  "setInterval ms t =
     (next_handle t,
      t\<lparr>live := (live t)(next_handle t \<mapsto> timer_delay ms), next_handle := Suc (next_handle t)\<rparr>)"

definition clearInterval :: "nat \<Rightarrow> timer_env \<Rightarrow> timer_env" where
  "clearInterval h t = t\<lparr>live := (live t)(h := None)\<rparr>"

subsection \<open>The 32-bit delay\<close>

lemma webidl_long_mod:
  "webidl_long ms = (ms + 2 ^ 31) mod 2 ^ 32 - 2 ^ 31"
  by (simp add: webidl_long_def int_word_sint)

lemma webidl_long_small:
  "-(2 ^ 31) \<le> ms \<Longrightarrow> ms < 2 ^ 31 \<Longrightarrow> webidl_long ms = ms"
  by (simp add: webidl_long_mod mod_pos_pos_trivial)

lemma webidl_long_wraps:
  "2 ^ 31 \<le> ms \<Longrightarrow> ms < 2 ^ 32 + 2 ^ 31 \<Longrightarrow> webidl_long ms = ms - 2 ^ 32"
proof -
  assume lo: "2 ^ 31 \<le> ms" and hi: "ms < 2 ^ 32 + 2 ^ 31"
  have "(ms + 2 ^ 31) mod 2 ^ 32 = ((ms + 2 ^ 31 - 2 ^ 32) + 2 ^ 32) mod (2 ^ 32 :: int)"
    by (simp add: algebra_simps)
  also have "\<dots> = (ms + 2 ^ 31 - 2 ^ 32) mod 2 ^ 32"
    by (rule mod_add_self2)
  also have "\<dots> = ms + 2 ^ 31 - 2 ^ 32"
    using lo hi by (intro mod_pos_pos_trivial) simp_all
  finally show ?thesis
    by (simp add: webidl_long_mod)
qed

lemma timer_delay_wraps_zero:
  "2 ^ 31 \<le> ms \<Longrightarrow> ms < 2 ^ 32 \<Longrightarrow> timer_delay ms = 0"
  using webidl_long_wraps [of ms] by (simp add: timer_delay_def)

lemma timer_delay_small:
  "0 \<le> ms \<Longrightarrow> ms < 2 ^ 31 \<Longrightarrow> timer_delay ms = ms"
  by (simp add: timer_delay_def webidl_long_small)

subsection \<open>Handles\<close>

lemma setInterval_handle:
  "setInterval ms t = (h, t') \<Longrightarrow>
     h = next_handle t \<and> live t' = (live t)(h \<mapsto> timer_delay ms) \<and> next_handle t' = Suc h"
  by (auto simp: setInterval_def)

lemma clearInterval_live [simp]:
  "live (clearInterval h t) = (live t)(h := None)"
  "next_handle (clearInterval h t) = next_handle t"
  by (simp_all add: clearInterval_def)

end
