(* ===== verification/Todo_Component.thy ===== *)
theory Todo_Component
  imports Task_Store Drag_Drop Notification_Service Browser_Timers
begin

text \<open>
  \<open>TodoComponent\<close> (src/src/app/todo/todo.component.ts).  The component's fields and
  the browser state its handlers touch form one record: the heap of task objects, the
  arrays \<open>tasks\<close> and \<open>done\<close> (here \<open>done_list\<close>) as lists of references, the
  interval fields, \<open>localStorage\<close>, the live timers and the Notification API.  Each
  handler is one definition that returns the new state; \<open>drop\<close> returns an option
  because the CDK loop it calls is a partial function (it always returns, see
  \<open>drop_total\<close>).  The form widget (\<open>todoForm\<close>, its \<open>reset\<close>), the \<open>prompt\<close>
  dialog and the number input are external: their values arrive as event parameters.
  The specification's abstract machine on two sequences of task values is defined here
  as well, with the refinement theorem \<open>step_refines\<close> relating it to the component.
\<close>

datatype list_name = Tasks_List | Done_List

record todo_state =
  heap :: heap
  tasks :: "ref list"
  done_list :: "ref list"
  notificationInterval :: int
  notificationIntervalId :: "nat option"
  newNotificationInterval :: "real option"
  local_storage :: storage
  timer_env :: timer_env
  notif :: notif_state

text \<open>The field initialisers (the component is created with the browser's storage and
  Notification API as they are).\<close>

definition component_init :: "storage \<Rightarrow> notif_state \<Rightarrow> todo_state" where
  "component_init st n =
     \<lparr>heap = [], tasks = [], done_list = [], notificationInterval = 1,
      notificationIntervalId = None, newNotificationInterval = None,
      local_storage = st, timer_env = timers_init, notif = n\<rparr>"

definition get_list :: "list_name \<Rightarrow> todo_state \<Rightarrow> ref list" where
  "get_list l s = (case l of Tasks_List \<Rightarrow> tasks s | Done_List \<Rightarrow> done_list s)"

definition set_list :: "list_name \<Rightarrow> ref list \<Rightarrow> todo_state \<Rightarrow> todo_state" where
  "set_list l xs s = (case l of Tasks_List \<Rightarrow> s\<lparr>tasks := xs\<rparr> | Done_List \<Rightarrow> s\<lparr>done_list := xs\<rparr>)"

subsection \<open>Helpers of the component\<close>

definition updateLocalStorage :: "todo_state \<Rightarrow> todo_state" where
  "updateLocalStorage s =
     s\<lparr>local_storage :=
        persist (deref (heap s) (tasks s)) (deref (heap s) (done_list s)) (local_storage s)\<rparr>"

text \<open>\<open>this.tasks.some((task) => !task.done)\<close>\<close>

definition has_pending_tasks :: "todo_state \<Rightarrow> bool" where
  "has_pending_tasks s = list_ex (\<lambda>r. \<not> task_done (heap s ! r)) (tasks s)"

definition notify :: "string \<Rightarrow> todo_state \<Rightarrow> todo_state" where
  "notify m s = s\<lparr>notif := showNotification m (notif s)\<rparr>"

definition checkAndNotify :: "todo_state \<Rightarrow> todo_state" where
  "checkAndNotify s =
     (if has_pending_tasks s then notify ''You have pending tasks in the Todo list!'' s else s)"

text \<open>\<open>this.notificationIntervalId = setInterval(() => this.checkAndNotify(),
  this.notificationInterval * 60000)\<close>: every live timer runs \<open>checkAndNotify\<close>.\<close>

definition start_notification_timer :: "todo_state \<Rightarrow> todo_state" where
  "start_notification_timer s =
     (case setInterval (notificationInterval s * 60000) (timer_env s) of
        (h, t) \<Rightarrow> s\<lparr>timer_env := t, notificationIntervalId := Some h\<rparr>)"

text \<open>\<open>this.tasks = JSON.parse(...)\<close>: the parsed array consists of fresh objects.\<close>

definition alloc_list :: "list_name \<Rightarrow> ITask list \<Rightarrow> todo_state \<Rightarrow> todo_state" where
  "alloc_list l ts s =
     set_list l [length (heap s) ..< length (heap s) + length ts] (s\<lparr>heap := heap s @ ts\<rparr>)"

subsection \<open>The handlers\<close>

definition ngOnInit :: "todo_state \<Rightarrow> init_error + todo_state" where
  "ngOnInit s =
     (case stored_list (local_storage s) ''tasks'' of
        Inl e \<Rightarrow> Inl e
      | Inr t \<Rightarrow>
          (let s1 = (case t of None \<Rightarrow> s | Some ts \<Rightarrow> alloc_list Tasks_List ts s)
           in case stored_list (local_storage s1) ''done'' of
                Inl e \<Rightarrow> Inl e
              | Inr d \<Rightarrow>
                  (let s2 = (case d of None \<Rightarrow> s1 | Some ds \<Rightarrow> alloc_list Done_List ds s1);
                       s3 = s2\<lparr>notif := requestPermission (notif s2)\<rparr>;
                       s4 = checkAndNotify s3
                   in Inr (start_notification_timer s4))))"

definition addTask :: "string \<Rightarrow> todo_state \<Rightarrow> todo_state" where
  "addTask item s =
     (let newTask = \<lparr>description = item, task_done = False, editing = False\<rparr>;
          s1 = s\<lparr>heap := heap s @ [newTask], tasks := tasks s @ [length (heap s)]\<rparr>;
          s2 = updateLocalStorage s1
      in if has_pending_tasks s2 then notify (''New Task added: '' @ description newTask) s2
         else s2)"

text \<open>\<open>task.description = prompt(...) || task.description\<close>: a cancelled prompt
  (\<open>null\<close>) or an empty answer keeps the old text.\<close>

definition prompt_or :: "string option \<Rightarrow> string \<Rightarrow> string" where
  "prompt_or answer old = (case answer of None \<Rightarrow> old | Some a \<Rightarrow> if a = [] then old else a)"

definition editTask :: "ref \<Rightarrow> string option \<Rightarrow> todo_state \<Rightarrow> todo_state" where
  "editTask r answer s =
     updateLocalStorage
       (s\<lparr>heap := (heap s)[r := (heap s ! r)\<lparr>description := prompt_or answer (description (heap s ! r))\<rparr>]\<rparr>)"

definition target_list :: "string \<Rightarrow> list_name option" where
  "target_list l = (if l = ''tasks'' then Some Tasks_List else if l = ''done'' then Some Done_List else None)"

definition deleteTask :: "ref \<Rightarrow> string \<Rightarrow> todo_state \<Rightarrow> todo_state" where
  "deleteTask r l s =
     (case target_list l of
        None \<Rightarrow> s
      | Some lst \<Rightarrow>
          (let targetList = get_list lst s;
               index = index_of targetList r
           in if index > -1 then updateLocalStorage (set_list lst (remove_at (nat index) targetList) s)
              else s))"

record drop_event =
  previousContainer :: list_name
  container :: list_name
  previousIndex :: int
  currentIndex :: int

definition drop :: "drop_event \<Rightarrow> todo_state \<Rightarrow> todo_state option" where
  "drop ev s =
     (let moved =
        (if previousContainer ev = container ev
         then map_option (\<lambda>xs. set_list (container ev) xs s)
                (moveItemInArray (get_list (container ev) s) (previousIndex ev) (currentIndex ev))
         else (case transferArrayItem (get_list (previousContainer ev) s) (get_list (container ev) s)
                      (previousIndex ev) (currentIndex ev) of
                 (src, dst) \<Rightarrow> Some (set_list (container ev) dst (set_list (previousContainer ev) src s))))
      in map_option
           (\<lambda>s1. let s2 = updateLocalStorage s1
                 in if \<not> has_pending_tasks s2 then notify ''All tasks completed!'' s2 else s2)
           moved)"

text \<open>\<open>Math.max(1, Math.abs(Math.floor(this.newNotificationInterval || 0)))\<close>; the
  input is a number or \<open>null\<close> (\<open>NaN\<close> is not modelled; it would give 1 as well).\<close>

definition coerce_interval :: "real option \<Rightarrow> int" where
  "coerce_interval v = max 1 \<bar>\<lfloor>case v of None \<Rightarrow> 0 | Some x \<Rightarrow> x\<rfloor>\<bar>"

definition restartNotificationInterval :: "todo_state \<Rightarrow> todo_state" where
  "restartNotificationInterval s =
     (let s1 = (case notificationIntervalId s of
                  None \<Rightarrow> s
                | Some h \<Rightarrow> if h \<noteq> 0 then s\<lparr>timer_env := clearInterval h (timer_env s)\<rparr> else s)
      in start_notification_timer s1)"

definition updateNotificationInterval :: "todo_state \<Rightarrow> todo_state" where
  "updateNotificationInterval s =
     (let s1 = restartNotificationInterval
                 (s\<lparr>notificationInterval := coerce_interval (newNotificationInterval s)\<rparr>)
      in s1\<lparr>newNotificationInterval := None\<rparr>)"

subsection \<open>Events and runs\<close>

text \<open>What can happen after \<open>ngOnInit\<close>: a user action on the page (the edit and
  delete buttons pass an existing task object), the number input changing its
  two-way bound field, a live timer firing, or the browser settling a permission
  request.\<close>

datatype event =
    Add_Task string
  | Edit_Task ref "string option"
  | Delete_Task ref string
  | Drop drop_event
  | Set_New_Interval "real option"
  | Update_Interval
  | Timer_Fire nat
  | Permission_Answer permission

fun step :: "event \<Rightarrow> todo_state \<Rightarrow> todo_state option" where
  "step (Add_Task item) s = Some (addTask item s)"
| "step (Edit_Task r answer) s = (if r < length (heap s) then Some (editTask r answer s) else None)"
| "step (Delete_Task r l) s = (if r < length (heap s) then Some (deleteTask r l s) else None)"
| "step (Drop ev) s = drop ev s"
| "step (Set_New_Interval v) s = Some (s\<lparr>newNotificationInterval := v\<rparr>)"
| "step Update_Interval s = Some (updateNotificationInterval s)"
| "step (Timer_Fire h) s = (if live (timer_env s) h \<noteq> None then Some (checkAndNotify s) else None)"
| "step (Permission_Answer p) s = map_option (\<lambda>n. s\<lparr>notif := n\<rparr>) (permission_settled p (notif s))"

fun run :: "event list \<Rightarrow> todo_state \<Rightarrow> todo_state option" where
  "run [] s = Some s"
| "run (e # es) s = (case step e s of None \<Rightarrow> None | Some s' \<Rightarrow> run es s')"

inductive reachable :: "todo_state \<Rightarrow> bool" where
  init: "ngOnInit (component_init st n) = Inr s \<Longrightarrow> reachable s"
| step: "reachable s \<Longrightarrow> step e s = Some s' \<Longrightarrow> reachable s'"


subsection \<open>Invariant and observations\<close>

text \<open>The references in the two arrays: each task object is in at most one array and
  at most once, and every reference points into the heap.\<close>

definition lists_ok :: "todo_state \<Rightarrow> bool" where
  "lists_ok s \<longleftrightarrow> distinct (tasks s @ done_list s)
     \<and> list_all (\<lambda>r. r < length (heap s)) (tasks s @ done_list s)"

text \<open>A fresh start from the current storage restores the current arrays.\<close>

definition storage_ok :: "todo_state \<Rightarrow> bool" where
  "storage_ok s \<longleftrightarrow>
     restore (local_storage s) = Inr (deref (heap s) (tasks s), deref (heap s) (done_list s))"

text \<open>Exactly one timer is live: the one whose handle the component holds, repeating
  with the converted delay of the current interval.\<close>

definition timer_ok :: "todo_state \<Rightarrow> bool" where
  "timer_ok s \<longleftrightarrow>
     (case notificationIntervalId s of
        None \<Rightarrow> False
      | Some h \<Rightarrow> 0 < h \<and> h < next_handle (timer_env s)
          \<and> live (timer_env s) = [h \<mapsto> timer_delay (notificationInterval s * 60000)])"

definition todo_inv :: "todo_state \<Rightarrow> bool" where
  "todo_inv s \<longleftrightarrow> lists_ok s \<and> storage_ok s \<and> 1 \<le> notificationInterval s \<and> timer_ok s"

text \<open>The arrays after the CDK call of \<open>drop\<close>, with the loop replaced by its
  reference semantics.\<close>

definition drop_moved :: "drop_event \<Rightarrow> todo_state \<Rightarrow> todo_state" where
  "drop_moved ev s =
     (if previousContainer ev = container ev
      then set_list (container ev) (move_ref (get_list (container ev) s) (previousIndex ev) (currentIndex ev)) s
      else (case transferArrayItem (get_list (previousContainer ev) s) (get_list (container ev) s)
                   (previousIndex ev) (currentIndex ev) of
              (src, dst) \<Rightarrow> set_list (container ev) dst (set_list (previousContainer ev) src s)))"

text \<open>Every task object ever created is not done: the \<open>done\<close> flag is never set.\<close>

definition flags_clear :: "todo_state \<Rightarrow> bool" where
  "flags_clear s \<longleftrightarrow> list_all (\<lambda>t. \<not> task_done t) (heap s)"

text \<open>A concrete run used by the witnesses: a fresh start on an empty storage, with
  notifications supported and granted, then two tasks added and the first one
  dragged to the top of the done list.\<close>

definition demo_notif :: notif_state where
  "demo_notif = \<lparr>supported = True, permission = Perm_Granted, pending_requests = 0,
                  shown = [], console = []\<rparr>"

definition demo_start :: todo_state where
  "demo_start = projr (ngOnInit (component_init Map.empty demo_notif))"

definition demo_transfer :: drop_event where
  "demo_transfer = \<lparr>previousContainer = Tasks_List, container = Done_List,
                     previousIndex = 0, currentIndex = 0\<rparr>"

definition demo_state :: todo_state where
  "demo_state = the (drop demo_transfer (addTask ''Walk dog'' (addTask ''Buy milk'' demo_start)))"

subsection \<open>The specification's abstract machine on the task lists\<close>

text \<open>
  The specification's view of the task data (section 4 of spec.md): two ordered
  sequences of task values, pending and done, changed by \<open>addTask\<close>, \<open>editTask\<close>,
  \<open>deleteTask\<close> and \<open>moveOrReorder\<close>.  Here this view is an abstract machine on
  pairs of task lists, whose operations name tasks by their position, and the
  component's state is mapped onto it by dereferencing both arrays
  (\<open>abs_lists\<close>).  The refinement theorem says that every step of the component
  from a reachable state moves its abstract image by the abstract operation the event
  denotes (\<open>event_op\<close>); events that do not touch the arrays denote \<open>Op_None\<close>.
\<close>
type_synonym task_lists = "ITask list \<times> ITask list"

datatype list_op =
    Op_None
  | Op_Add string
  | Op_Edit list_name nat "string option"
  | Op_Delete list_name nat
  | Op_Move list_name list_name int int

definition lists_get :: "list_name \<Rightarrow> task_lists \<Rightarrow> ITask list" where
  "lists_get l p = (case l of Tasks_List \<Rightarrow> fst p | Done_List \<Rightarrow> snd p)"

definition lists_set :: "list_name \<Rightarrow> ITask list \<Rightarrow> task_lists \<Rightarrow> task_lists" where
  "lists_set l xs p = (case l of Tasks_List \<Rightarrow> (xs, snd p) | Done_List \<Rightarrow> (fst p, xs))"

text \<open>Moving between two sequences: the element at the (clamped) source index is
  removed and inserted at the (clamped) destination index; an empty source is left
  alone.\<close>

definition spec_transfer :: "ITask list \<Rightarrow> ITask list \<Rightarrow> int \<Rightarrow> int \<Rightarrow> ITask list \<times> ITask list" where
  "spec_transfer src dst i j =
     (if src = [] then (src, dst)
      else (let a = nat (clamp i (int (length src) - 1)); b = nat (clamp j (int (length dst)))
            in (remove_at a src, insert_at b (src ! a) dst)))"

fun spec_apply :: "list_op \<Rightarrow> task_lists \<Rightarrow> task_lists" where
  "spec_apply Op_None p = p"
| "spec_apply (Op_Add d) p =
     (fst p @ [\<lparr>description = d, task_done = False, editing = False\<rparr>], snd p)"
| "spec_apply (Op_Edit l i a) p =
     lists_set l ((lists_get l p)[i := (lists_get l p ! i)
                    \<lparr>description := prompt_or a (description (lists_get l p ! i))\<rparr>]) p"
| "spec_apply (Op_Delete l i) p = lists_set l (remove_at i (lists_get l p)) p"
| "spec_apply (Op_Move src dst i j) p =
     (if src = dst then lists_set dst (move_ref (lists_get dst p) i j) p
      else (case spec_transfer (lists_get src p) (lists_get dst p) i j of
              (a, b) \<Rightarrow> lists_set dst b (lists_set src a p)))"

definition abs_lists :: "todo_state \<Rightarrow> task_lists" where
  "abs_lists s = (deref (heap s) (tasks s), deref (heap s) (done_list s))"

text \<open>The abstract operation an event denotes in a state: a task object is named by
  its position in the array that holds it.\<close>

definition event_op :: "todo_state \<Rightarrow> event \<Rightarrow> list_op" where
  "event_op s e =
     (case e of
        Add_Task d \<Rightarrow> Op_Add d
      | Edit_Task r a \<Rightarrow>
          (if r \<in> set (tasks s) then Op_Edit Tasks_List (nat (index_of (tasks s) r)) a
           else if r \<in> set (done_list s) then Op_Edit Done_List (nat (index_of (done_list s) r)) a
           else Op_None)
      | Delete_Task r name \<Rightarrow>
          (case target_list name of
             None \<Rightarrow> Op_None
           | Some l \<Rightarrow> if r \<in> set (get_list l s) then Op_Delete l (nat (index_of (get_list l s) r))
                       else Op_None)
      | Drop ev \<Rightarrow> Op_Move (previousContainer ev) (container ev) (previousIndex ev) (currentIndex ev)
      | _ \<Rightarrow> Op_None)"

subsection \<open>Frame lemmas\<close>

named_theorems todo_simps "unfolding and frame equations of the component model"

lemma get_set_list [todo_simps]:
  "get_list l (set_list l xs s) = xs"
  "l' \<noteq> l \<Longrightarrow> get_list l' (set_list l xs s) = get_list l' s"
  by (cases l; cases l'; simp add: get_list_def set_list_def)+

lemma set_list_frame [todo_simps]:
  "heap (set_list l xs s) = heap s"
  "local_storage (set_list l xs s) = local_storage s"
  "notificationInterval (set_list l xs s) = notificationInterval s"
  "notificationIntervalId (set_list l xs s) = notificationIntervalId s"
  "newNotificationInterval (set_list l xs s) = newNotificationInterval s"
  "timer_env (set_list l xs s) = timer_env s"
  "notif (set_list l xs s) = notif s"
  by (cases l; simp add: set_list_def)+

lemma updateLocalStorage_frame [todo_simps]:
  "heap (updateLocalStorage s) = heap s"
  "tasks (updateLocalStorage s) = tasks s"
  "done_list (updateLocalStorage s) = done_list s"
  "notificationInterval (updateLocalStorage s) = notificationInterval s"
  "notificationIntervalId (updateLocalStorage s) = notificationIntervalId s"
  "newNotificationInterval (updateLocalStorage s) = newNotificationInterval s"
  "timer_env (updateLocalStorage s) = timer_env s"
  "notif (updateLocalStorage s) = notif s"
  by (simp_all add: updateLocalStorage_def)

lemma notify_frame [todo_simps]:
  "heap (notify m s) = heap s"
  "tasks (notify m s) = tasks s"
  "done_list (notify m s) = done_list s"
  "local_storage (notify m s) = local_storage s"
  "notificationInterval (notify m s) = notificationInterval s"
  "notificationIntervalId (notify m s) = notificationIntervalId s"
  "newNotificationInterval (notify m s) = newNotificationInterval s"
  "timer_env (notify m s) = timer_env s"
  by (simp_all add: notify_def)

lemma notify_shown [todo_simps]:
  "shown (notif (notify m s)) =
     shown (notif s) @ (if supported (notif s) \<and> permission (notif s) = Perm_Granted
                        then [(''Todo List'', m)] else [])"
  by (simp add: notify_def showNotification_def)

lemma checkAndNotify_frame [todo_simps]:
  "heap (checkAndNotify s) = heap s"
  "tasks (checkAndNotify s) = tasks s"
  "done_list (checkAndNotify s) = done_list s"
  "local_storage (checkAndNotify s) = local_storage s"
  "notificationInterval (checkAndNotify s) = notificationInterval s"
  "notificationIntervalId (checkAndNotify s) = notificationIntervalId s"
  "timer_env (checkAndNotify s) = timer_env s"
  by (simp_all add: checkAndNotify_def todo_simps)

lemma has_pending_tasks_cong:
  "heap s' = heap s \<Longrightarrow> tasks s' = tasks s \<Longrightarrow> has_pending_tasks s' = has_pending_tasks s"
  by (simp add: has_pending_tasks_def)

lemma storage_ok_updateLocalStorage [todo_simps]:
  "storage_ok (updateLocalStorage s)"
  by (simp add: storage_ok_def updateLocalStorage_def restore_of_persist)

lemma storage_ok_notify [todo_simps]:
  "storage_ok (notify m s) = storage_ok s"
  by (simp add: storage_ok_def todo_simps)

lemma drop_eq:
  "drop ev s =
     Some (let s2 = updateLocalStorage (drop_moved ev s)
           in if \<not> has_pending_tasks s2 then notify ''All tasks completed!'' s2 else s2)"
  by (simp add: drop_def drop_moved_def moveItemInArray_move_ref split: prod.split)


lemma lists_ok_mset:
  assumes "lists_ok s" and "heap s' = heap s"
    and "mset (tasks s' @ done_list s') = mset (tasks s @ done_list s)"
  shows "lists_ok s'"
proof -
  have "set (tasks s' @ done_list s') = set (tasks s @ done_list s)"
    using assms(3) by (metis set_mset_mset)
  moreover have "distinct (tasks s @ done_list s)"
    using assms(1) by (simp add: lists_ok_def)
  then have "distinct (tasks s' @ done_list s')"
    by (metis assms(3) mset_eq_imp_distinct_iff)
  ultimately show ?thesis
    using assms(1,2) by (simp add: lists_ok_def list_all_iff)
qed

subsection \<open>addTask\<close>

lemma addTask_eq:
  "addTask item s =
     notify (''New Task added: '' @ item)
       (updateLocalStorage
          (s\<lparr>heap := heap s @ [\<lparr>description = item, task_done = False, editing = False\<rparr>],
              tasks := tasks s @ [length (heap s)]\<rparr>))"
  by (simp add: addTask_def Let_def has_pending_tasks_def todo_simps)

lemma lists_ok_updateLocalStorage [todo_simps]:
  "lists_ok (updateLocalStorage s) = lists_ok s"
  by (simp add: lists_ok_def todo_simps)

lemma lists_ok_notify [todo_simps]:
  "lists_ok (notify m s) = lists_ok s"
  by (simp add: lists_ok_def todo_simps)

lemma lists_ok_addTask:
  "lists_ok s \<Longrightarrow> lists_ok (addTask item s)"
  by (fastforce simp: addTask_eq lists_ok_def todo_simps list_all_iff less_SucI)

lemma storage_ok_addTask:
  "storage_ok (addTask item s)"
  by (simp add: addTask_eq todo_simps)

subsection \<open>editTask\<close>

lemma lists_ok_editTask:
  "lists_ok s \<Longrightarrow> lists_ok (editTask r answer s)"
  by (simp add: editTask_def lists_ok_def todo_simps)

lemma storage_ok_editTask:
  "storage_ok (editTask r answer s)"
  by (simp add: editTask_def todo_simps)

subsection \<open>deleteTask\<close>

lemma index_of_gt_iff:
  "(index_of xs x > -1) = (x \<in> set xs)"
  using index_of_ge [of xs x] index_of_absent [of xs x] by arith

lemma deleteTask_eq:
  "deleteTask r l s =
     (case target_list l of
        None \<Rightarrow> s
      | Some lst \<Rightarrow>
          if r \<in> set (get_list lst s)
          then updateLocalStorage (set_list lst (remove1 r (get_list lst s)) s)
          else s)"
  by (simp add: deleteTask_def Let_def index_of_gt_iff remove_at_index_of split: option.split)

lemma lists_ok_remove1:
  assumes "lists_ok s"
  shows "lists_ok (set_list lst (remove1 r (get_list lst s)) s)"
proof (cases lst)
  case Tasks_List
  then show ?thesis
    using assms set_remove1_subset [of r "get_list lst s"]
    by (auto simp: lists_ok_def set_list_def get_list_def list_all_iff distinct_remove1)
next
  case Done_List
  then show ?thesis
    using assms set_remove1_subset [of r "get_list lst s"]
    by (auto simp: lists_ok_def set_list_def get_list_def list_all_iff distinct_remove1)
qed

lemma lists_ok_deleteTask:
  "lists_ok s \<Longrightarrow> lists_ok (deleteTask r l s)"
  by (simp add: deleteTask_eq lists_ok_remove1 todo_simps split: option.split)

lemma storage_ok_deleteTask:
  "storage_ok s \<Longrightarrow> storage_ok (deleteTask r l s)"
  by (simp add: deleteTask_eq todo_simps split: option.split)

subsection \<open>drop\<close>

lemma drop_moved_frame [todo_simps]:
  "heap (drop_moved ev s) = heap s"
  "local_storage (drop_moved ev s) = local_storage s"
  "notificationInterval (drop_moved ev s) = notificationInterval s"
  "notificationIntervalId (drop_moved ev s) = notificationIntervalId s"
  "newNotificationInterval (drop_moved ev s) = newNotificationInterval s"
  "timer_env (drop_moved ev s) = timer_env s"
  "notif (drop_moved ev s) = notif s"
  by (simp_all add: drop_moved_def todo_simps split: prod.split)

lemma drop_moved_mset:
  "mset (tasks (drop_moved ev s) @ done_list (drop_moved ev s)) = mset (tasks s @ done_list s)"
proof (cases "previousContainer ev = container ev")
  case True
  then show ?thesis
    by (cases "container ev")
      (simp_all add: drop_moved_def set_list_def get_list_def move_ref_mset)
next
  case False
  let ?r = "transferArrayItem (get_list (previousContainer ev) s) (get_list (container ev) s)
              (previousIndex ev) (currentIndex ev)"
  have m: "mset (fst ?r) + mset (snd ?r) =
      mset (get_list (previousContainer ev) s) + mset (get_list (container ev) s)"
    by (rule transferArrayItem_mset)
  show ?thesis
    using False m
    by (cases "previousContainer ev"; cases "container ev")
      (simp_all add: drop_moved_def set_list_def get_list_def split: prod.split, auto simp: add.commute)
qed

lemma drop_Some:
  "drop ev s = Some s' \<Longrightarrow>
     s' = (let s2 = updateLocalStorage (drop_moved ev s)
           in if \<not> has_pending_tasks s2 then notify ''All tasks completed!'' s2 else s2)"
  by (simp add: drop_eq)

lemma lists_ok_drop:
  "lists_ok s \<Longrightarrow> drop ev s = Some s' \<Longrightarrow> lists_ok s'"
  by (drule drop_Some) (simp add: Let_def todo_simps lists_ok_mset [OF _ _ drop_moved_mset])

lemma storage_ok_drop:
  "drop ev s = Some s' \<Longrightarrow> storage_ok s'"
  by (drule drop_Some) (simp add: Let_def todo_simps)


subsection \<open>The interval and the timer\<close>

lemma coerce_interval_ge_1:
  "1 \<le> coerce_interval v"
  by (simp add: coerce_interval_def)

lemma start_notification_timer_eq:
  "start_notification_timer s =
     s\<lparr>timer_env := (timer_env s)\<lparr>live := (live (timer_env s))(next_handle (timer_env s) \<mapsto>
                          timer_delay (notificationInterval s * 60000)),
                     next_handle := Suc (next_handle (timer_env s))\<rparr>,
       notificationIntervalId := Some (next_handle (timer_env s))\<rparr>"
  by (simp add: start_notification_timer_def setInterval_def)

lemma updateNotificationInterval_timer:
  assumes "timer_ok s"
  shows "notificationInterval (updateNotificationInterval s) = coerce_interval (newNotificationInterval s)
     \<and> timer_ok (updateNotificationInterval s)
     \<and> notificationIntervalId (updateNotificationInterval s) = Some (next_handle (timer_env s))
     \<and> live (timer_env (updateNotificationInterval s)) =
         [next_handle (timer_env s) \<mapsto> timer_delay (coerce_interval (newNotificationInterval s) * 60000)]"
proof -
  obtain h where h: "notificationIntervalId s = Some h" and h0: "0 < h"
    and hn: "h < next_handle (timer_env s)"
    and lv: "live (timer_env s) = [h \<mapsto> timer_delay (notificationInterval s * 60000)]"
    using assms by (auto simp: timer_ok_def split: option.splits)
  have cleared: "(live (timer_env s))(h := None) = Map.empty"
    using lv by simp
  show ?thesis
    using h h0 hn cleared
    by (simp add: updateNotificationInterval_def restartNotificationInterval_def
        start_notification_timer_eq timer_ok_def clearInterval_def)
qed

lemma updateNotificationInterval_frame [todo_simps]:
  "heap (updateNotificationInterval s) = heap s"
  "tasks (updateNotificationInterval s) = tasks s"
  "done_list (updateNotificationInterval s) = done_list s"
  "local_storage (updateNotificationInterval s) = local_storage s"
  "notif (updateNotificationInterval s) = notif s"
  "newNotificationInterval (updateNotificationInterval s) = None"
  by (simp_all add: updateNotificationInterval_def restartNotificationInterval_def
      start_notification_timer_eq split: option.split)

subsection \<open>ngOnInit\<close>

lemma alloc_list_frame [todo_simps]:
  "local_storage (alloc_list l ts s) = local_storage s"
  "notificationInterval (alloc_list l ts s) = notificationInterval s"
  "notificationIntervalId (alloc_list l ts s) = notificationIntervalId s"
  "timer_env (alloc_list l ts s) = timer_env s"
  "notif (alloc_list l ts s) = notif s"
  "heap (alloc_list l ts s) = heap s @ ts"
  by (simp_all add: alloc_list_def todo_simps)

lemma deref_upt:
  "deref (h @ ts) [length h ..< length h + length ts] = ts"
  by (rule nth_equalityI) (simp_all add: deref_def nth_append)


lemma component_init_sel [todo_simps]:
  "local_storage (component_init st n) = st"
  "notif (component_init st n) = n"
  "heap (component_init st n) = []"
  "tasks (component_init st n) = []"
  "done_list (component_init st n) = []"
  "notificationInterval (component_init st n) = 1"
  "notificationIntervalId (component_init st n) = None"
  "timer_env (component_init st n) = timers_init"
  "get_list l (component_init st n) = []"
  by (simp_all add: component_init_def get_list_def split: list_name.split)

lemma alloc_list_Nil:
  "get_list l s = [] \<Longrightarrow> alloc_list l [] s = s"
  by (cases l) (simp_all add: alloc_list_def set_list_def get_list_def)

lemma alloc_case_option:
  "get_list l s = [] \<Longrightarrow>
     (case t of None \<Rightarrow> s | Some ts \<Rightarrow> alloc_list l ts s)
       = alloc_list l (case t of None \<Rightarrow> [] | Some ts \<Rightarrow> ts) s"
  by (cases t) (simp_all add: alloc_list_Nil)

lemma ngOnInit_Inr:
  assumes "ngOnInit (component_init st n) = Inr s"
  obtains t d where "stored_list st ''tasks'' = Inr t" and "stored_list st ''done'' = Inr d"
    and "s = start_notification_timer (checkAndNotify
           ((alloc_list Done_List (case d of None \<Rightarrow> [] | Some ds \<Rightarrow> ds)
              (alloc_list Tasks_List (case t of None \<Rightarrow> [] | Some ts \<Rightarrow> ts) (component_init st n)))
            \<lparr>notif := requestPermission n\<rparr>))"
proof -
  obtain t where t: "stored_list st ''tasks'' = Inr t"
    using assms by (cases "stored_list st ''tasks''") (simp_all add: ngOnInit_def component_init_def)
  let ?s1 = "alloc_list Tasks_List (case t of None \<Rightarrow> [] | Some ts \<Rightarrow> ts) (component_init st n)"
  have s1: "(case t of None \<Rightarrow> component_init st n | Some ts \<Rightarrow> alloc_list Tasks_List ts (component_init st n))
      = ?s1"
    by (rule alloc_case_option) (simp add: get_list_def component_init_def)
  obtain d where d: "stored_list st ''done'' = Inr d"
    using assms t
    by (cases "stored_list st ''done''") (simp_all add: ngOnInit_def s1 todo_simps Let_def)
  have s2: "(case d of None \<Rightarrow> ?s1 | Some ds \<Rightarrow> alloc_list Done_List ds ?s1)
      = alloc_list Done_List (case d of None \<Rightarrow> [] | Some ds \<Rightarrow> ds) ?s1"
    by (rule alloc_case_option) (simp add: alloc_list_def get_list_def set_list_def component_init_def)
  have "s = start_notification_timer (checkAndNotify
           ((alloc_list Done_List (case d of None \<Rightarrow> [] | Some ds \<Rightarrow> ds) ?s1)
            \<lparr>notif := requestPermission n\<rparr>))"
    using assms t d s1 s2
    by (simp add: ngOnInit_def todo_simps Let_def)
  with t d that show ?thesis by blast
qed

lemma restore_stored:
  "stored_list st ''tasks'' = Inr t \<Longrightarrow> stored_list st ''done'' = Inr d \<Longrightarrow>
     restore st = Inr (case t of None \<Rightarrow> [] | Some ts \<Rightarrow> ts, case d of None \<Rightarrow> [] | Some ds \<Rightarrow> ds)"
  by (simp add: restore_def)

lemma todo_inv_init:
  assumes "ngOnInit (component_init st n) = Inr s"
  shows "todo_inv s"
proof -
  obtain t d where t: "stored_list st ''tasks'' = Inr t" and d: "stored_list st ''done'' = Inr d"
    and s: "s = start_notification_timer (checkAndNotify
           ((alloc_list Done_List (case d of None \<Rightarrow> [] | Some ds \<Rightarrow> ds)
              (alloc_list Tasks_List (case t of None \<Rightarrow> [] | Some ts \<Rightarrow> ts) (component_init st n)))
            \<lparr>notif := requestPermission n\<rparr>))"
    using assms by (rule ngOnInit_Inr)
  define ts where "ts = (case t of None \<Rightarrow> [] | Some ts \<Rightarrow> ts)"
  define ds where "ds = (case d of None \<Rightarrow> [] | Some ds \<Rightarrow> ds)"
  have fields: "heap s = ts @ ds" "tasks s = [0 ..< length ts]"
    "done_list s = [length ts ..< length ts + length ds]" "local_storage s = st"
    "notificationInterval s = 1" "notificationIntervalId s = Some 1"
    "timer_env s = \<lparr>live = [1 \<mapsto> timer_delay 60000], next_handle = 2\<rparr>"
    by (simp_all add: s ts_def [symmetric] ds_def [symmetric] start_notification_timer_eq
        todo_simps alloc_list_def set_list_def component_init_def timers_init_def)
  have "deref (ts @ ds) [0 ..< length ts] = ts"
    using deref_upt [of "[]" ts] deref_append_heap [of "[0 ..< length ts]" ts ds]
    by simp
  moreover have "deref (ts @ ds) [length ts ..< length ts + length ds] = ds"
    by (rule deref_upt)
  moreover have "list_all (\<lambda>r. r < length (ts @ ds)) ([0 ..< length ts] @ [length ts ..< length ts + length ds])"
    by (auto simp: list_all_iff)
  ultimately show ?thesis
    using restore_stored [OF t d]
    by (simp add: todo_inv_def lists_ok_def storage_ok_def timer_ok_def fields
        ts_def [symmetric] ds_def [symmetric])
qed


subsection \<open>The invariant holds in every reachable state\<close>

lemma todo_inv_cong:
  assumes "heap s' = heap s" "tasks s' = tasks s" "done_list s' = done_list s"
    "local_storage s' = local_storage s" "notificationInterval s' = notificationInterval s"
    "notificationIntervalId s' = notificationIntervalId s" "timer_env s' = timer_env s"
  shows "todo_inv s' = todo_inv s"
  using assms by (simp add: todo_inv_def lists_ok_def storage_ok_def timer_ok_def split: option.split)

lemma timer_part_cong:
  assumes "notificationInterval s' = notificationInterval s"
    "notificationIntervalId s' = notificationIntervalId s" "timer_env s' = timer_env s"
  shows "(1 \<le> notificationInterval s' \<and> timer_ok s') = (1 \<le> notificationInterval s \<and> timer_ok s)"
  using assms by (simp add: timer_ok_def split: option.split)

lemma todo_inv_addTask:
  "todo_inv s \<Longrightarrow> todo_inv (addTask item s)"
  using lists_ok_addTask [of s item] storage_ok_addTask [of item s]
    timer_part_cong [of "addTask item s" s]
  by (simp add: todo_inv_def addTask_eq todo_simps)

lemma todo_inv_editTask:
  "todo_inv s \<Longrightarrow> todo_inv (editTask r answer s)"
  using lists_ok_editTask [of s r answer] storage_ok_editTask [of r answer s]
    timer_part_cong [of "editTask r answer s" s]
  by (simp add: todo_inv_def editTask_def todo_simps)

lemma deleteTask_frame [todo_simps]:
  "heap (deleteTask r l s) = heap s"
  "notificationInterval (deleteTask r l s) = notificationInterval s"
  "notificationIntervalId (deleteTask r l s) = notificationIntervalId s"
  "timer_env (deleteTask r l s) = timer_env s"
  "notif (deleteTask r l s) = notif s"
  "newNotificationInterval (deleteTask r l s) = newNotificationInterval s"
  by (simp_all add: deleteTask_eq todo_simps split: option.split)

lemma todo_inv_deleteTask:
  "todo_inv s \<Longrightarrow> todo_inv (deleteTask r l s)"
  using lists_ok_deleteTask [of s r l] storage_ok_deleteTask [of s r l]
    timer_part_cong [of "deleteTask r l s" s]
  by (simp add: todo_inv_def todo_simps)

lemma drop_frame:
  "drop ev s = Some s' \<Longrightarrow>
     heap s' = heap s \<and> notificationInterval s' = notificationInterval s
     \<and> notificationIntervalId s' = notificationIntervalId s \<and> timer_env s' = timer_env s
     \<and> newNotificationInterval s' = newNotificationInterval s"
  by (drule drop_Some) (simp add: Let_def todo_simps)

lemma todo_inv_drop:
  "todo_inv s \<Longrightarrow> drop ev s = Some s' \<Longrightarrow> todo_inv s'"
  using lists_ok_drop [of s ev s'] storage_ok_drop [of ev s s'] drop_frame [of ev s s']
    timer_part_cong [of s' s]
  by (simp add: todo_inv_def)

lemma todo_inv_updateNotificationInterval:
  "todo_inv s \<Longrightarrow> todo_inv (updateNotificationInterval s)"
  using updateNotificationInterval_timer [of s] coerce_interval_ge_1 [of "newNotificationInterval s"]
  by (simp add: todo_inv_def lists_ok_def storage_ok_def todo_simps)

lemma todo_inv_step:
  assumes "todo_inv s" and "step e s = Some s'"
  shows "todo_inv s'"
proof (cases e)
  case (Add_Task item)
  then show ?thesis using assms by (auto intro: todo_inv_addTask)
next
  case (Edit_Task r answer)
  then show ?thesis using assms by (auto intro: todo_inv_editTask split: if_splits)
next
  case (Delete_Task r l)
  then show ?thesis using assms by (auto intro: todo_inv_deleteTask split: if_splits)
next
  case (Drop ev)
  then show ?thesis using assms by (auto intro: todo_inv_drop)
next
  case (Set_New_Interval v)
  then show ?thesis using assms todo_inv_cong [of s' s] by auto
next
  case Update_Interval
  then show ?thesis using assms by (auto intro: todo_inv_updateNotificationInterval)
next
  case (Timer_Fire h)
  then show ?thesis using assms todo_inv_cong [of s' s] by (auto simp: todo_simps split: if_splits)
next
  case (Permission_Answer p)
  then show ?thesis using assms todo_inv_cong [of s' s] by auto
qed

lemma reachable_todo_inv:
  "reachable s \<Longrightarrow> todo_inv s"
proof (induction rule: reachable.induct)
  case (init st n s)
  then show ?case by (rule todo_inv_init)
next
  case (step s e s')
  then show ?case by (blast intro: todo_inv_step)
qed


subsection \<open>The demo run is a run\<close>

lemma ngOnInit_empty:
  "ngOnInit (component_init Map.empty n) =
     Inr (start_notification_timer (checkAndNotify ((component_init Map.empty n)\<lparr>notif := requestPermission n\<rparr>)))"
  by (simp add: ngOnInit_def stored_list_def todo_simps Let_def)

lemma reachable_demo_start:
  "reachable demo_start"
  by (rule reachable.init [of Map.empty demo_notif]) (simp add: demo_start_def ngOnInit_empty)

lemma reachable_demo_state:
  "reachable demo_state"
proof -
  let ?s1 = "addTask ''Buy milk'' demo_start"
  let ?s2 = "addTask ''Walk dog'' ?s1"
  have r1: "reachable ?s1"
    by (rule reachable.step [OF reachable_demo_start, of "Add_Task ''Buy milk''"]) simp
  have r2: "reachable ?s2"
    by (rule reachable.step [OF r1, of "Add_Task ''Walk dog''"]) simp
  obtain s3 where d: "drop demo_transfer ?s2 = Some s3"
    using drop_eq by blast
  have "reachable s3"
    by (rule reachable.step [OF r2, of "Drop demo_transfer"]) (simp add: d)
  then show ?thesis
    by (simp add: demo_state_def d)
qed

lemma demo_state_lists:
  "heap demo_state = [\<lparr>description = ''Buy milk'', task_done = False, editing = False\<rparr>,
                      \<lparr>description = ''Walk dog'', task_done = False, editing = False\<rparr>]
   \<and> tasks demo_state = [1] \<and> done_list demo_state = [0]"
proof -
  have s0: "heap demo_start = [] \<and> tasks demo_start = [] \<and> done_list demo_start = []"
    by (simp add: demo_start_def ngOnInit_empty start_notification_timer_eq todo_simps)
  show ?thesis
    using s0 by (simp add: demo_state_def drop_eq drop_moved_def demo_transfer_def addTask_eq
        todo_simps transferArrayItem_def clamp_def get_list_def set_list_def remove_at_def insert_at_def Let_def)
qed


lemma get_list_frame [todo_simps]:
  "get_list l (updateLocalStorage s) = get_list l s"
  "get_list l (notify m s) = get_list l s"
  by (simp_all add: get_list_def todo_simps split: list_name.split)

lemma demo_start_fields:
  "heap demo_start = [] \<and> tasks demo_start = [] \<and> done_list demo_start = []
   \<and> notif demo_start = demo_notif"
  by (simp add: demo_start_def ngOnInit_empty start_notification_timer_eq todo_simps
      checkAndNotify_def has_pending_tasks_def demo_notif_def requestPermission_def)

lemma deref_update_at:
  assumes "distinct xs" "i < length xs" "xs ! i = r"
  shows "deref (h[r := t]) xs = (deref h xs)[i := (if r < length h then t else h ! r)]"
proof (rule nth_equalityI)
  show "length (deref (h[r := t]) xs) = length ((deref h xs)[i := (if r < length h then t else h ! r)])"
    by (simp add: deref_def)
next
  fix k
  assume "k < length (deref (h[r := t]) xs)"
  then have k: "k < length xs" by (simp add: deref_def)
  have "xs ! k = r \<longleftrightarrow> k = i"
    using assms k by (metis nth_eq_iff_index_eq)
  then show "deref (h[r := t]) xs ! k = (deref h xs)[i := (if r < length h then t else h ! r)] ! k"
    using k assms by (auto simp: deref_def nth_list_update list_update_beyond)
qed

lemma deref_lists_ok_remove1:
  "distinct (xs @ ys) \<Longrightarrow> r \<in> set xs \<Longrightarrow> r \<notin> set (remove1 r xs @ ys)"
  by auto

subsection \<open>Refinement of the abstract machine\<close>

lemma transferArrayItem_spec:
  "transferArrayItem c g i j = spec_transfer c g i j"
  by (simp add: transferArrayItem_def spec_transfer_def Let_def clamp_def)

lemma deref_get_list:
  "deref (heap s) (get_list l s) = lists_get l (abs_lists s)"
  by (cases l) (simp_all add: get_list_def lists_get_def abs_lists_def)

lemma abs_set_list:
  "abs_lists (set_list l xs s) = lists_set l (deref (heap s) xs) (abs_lists s)"
  by (cases l) (simp_all add: set_list_def lists_set_def abs_lists_def)

lemma abs_updateLocalStorage [simp]:
  "abs_lists (updateLocalStorage s) = abs_lists s"
  "abs_lists (notify m s) = abs_lists s"
  by (simp_all add: abs_lists_def todo_simps)

lemma abs_addTask:
  assumes "lists_ok s"
  shows "abs_lists (addTask d s) = spec_apply (Op_Add d) (abs_lists s)"
proof -
  have "\<forall>r \<in> set (tasks s). r < length (heap s)" "\<forall>r \<in> set (done_list s). r < length (heap s)"
    using assms by (simp_all add: lists_ok_def list_all_iff)
  then show ?thesis
    by (simp add: addTask_eq todo_simps abs_lists_def deref_append_heap) (simp add: deref_def)
qed

lemma abs_editTask_at:
  assumes "lists_ok s" and "r \<in> set (get_list l s)" and "r < length (heap s)"
  shows "abs_lists (editTask r a s) =
           spec_apply (Op_Edit l (nat (index_of (get_list l s) r)) a) (abs_lists s)"
proof -
  define i where "i = nat (index_of (get_list l s) r)"
  have ip: "i < length (get_list l s)" "get_list l s ! i = r"
    using index_of_present [OF assms(2)] by (simp_all add: i_def)
  have d: "distinct (tasks s @ done_list s)"
    using assms(1) by (simp add: lists_ok_def)
  show ?thesis
  proof (cases l)
    case Tasks_List
    then have "r \<notin> set (done_list s)" and "distinct (tasks s)"
      using d assms(2) by (auto simp: get_list_def)
    moreover have "nat (index_of (tasks s) r) = i"
      using Tasks_List by (simp add: i_def get_list_def)
    ultimately show ?thesis
      using Tasks_List ip assms(3) deref_update_at [of "tasks s" i r "heap s"]
      by (simp add: editTask_def todo_simps abs_lists_def get_list_def lists_get_def lists_set_def
          deref_update_other) (simp add: deref_def)
  next
    case Done_List
    then have "r \<notin> set (tasks s)" and "distinct (done_list s)"
      using d assms(2) by (auto simp: get_list_def)
    moreover have "nat (index_of (done_list s) r) = i"
      using Done_List by (simp add: i_def get_list_def)
    ultimately show ?thesis
      using Done_List ip assms(3) deref_update_at [of "done_list s" i r "heap s"]
      by (simp add: editTask_def todo_simps abs_lists_def get_list_def lists_get_def lists_set_def
          deref_update_other) (simp add: deref_def)
  qed
qed

lemma abs_editTask_none:
  assumes "r \<notin> set (tasks s)" and "r \<notin> set (done_list s)"
  shows "abs_lists (editTask r a s) = abs_lists s"
  using assms by (simp add: editTask_def todo_simps abs_lists_def deref_update_other)

lemma abs_editTask:
  assumes ok: "lists_ok s" and rl: "r < length (heap s)"
  shows "abs_lists (editTask r a s) = spec_apply (event_op s (Edit_Task r a)) (abs_lists s)"
proof -
  consider "r \<in> set (tasks s)" | "r \<notin> set (tasks s)" "r \<in> set (done_list s)"
    | "r \<notin> set (tasks s)" "r \<notin> set (done_list s)" by blast
  then show ?thesis
  proof cases
    case 1
    then show ?thesis
      using abs_editTask_at [OF ok, of r Tasks_List, OF _ rl, of a] by (simp add: event_op_def get_list_def)
  next
    case 2
    then show ?thesis
      using abs_editTask_at [OF ok, of r Done_List, OF _ rl, of a] by (simp add: event_op_def get_list_def)
  next
    case 3
    then show ?thesis
      using abs_editTask_none [of r s a] by (simp add: event_op_def)
  qed
qed

lemma abs_deleteTask:
  "abs_lists (deleteTask r name s) = spec_apply (event_op s (Delete_Task r name)) (abs_lists s)"
proof (cases "target_list name")
  case (Some l)
  show ?thesis
  proof (cases "r \<in> set (get_list l s)")
    case True
    have "deref (heap s) (remove1 r (get_list l s)) =
        remove_at (nat (index_of (get_list l s) r)) (lists_get l (abs_lists s))"
      using True by (simp add: remove_at_index_of [symmetric] deref_get_list [symmetric])
        (simp add: deref_def map_remove_at)
    then show ?thesis
      using Some True by (simp add: deleteTask_eq event_op_def abs_set_list)
  qed (use Some in \<open>simp add: deleteTask_eq event_op_def\<close>)
qed (simp add: deleteTask_eq event_op_def)

lemma abs_drop_moved:
  "abs_lists (drop_moved ev s) = spec_apply (event_op s (Drop ev)) (abs_lists s)"
proof (cases "previousContainer ev = container ev")
  case True
  have "deref (heap s) (move_ref (get_list (container ev) s) (previousIndex ev) (currentIndex ev))
      = move_ref (lists_get (container ev) (abs_lists s)) (previousIndex ev) (currentIndex ev)"
    by (simp add: deref_get_list [symmetric]) (simp add: deref_def map_move_ref)
  then show ?thesis
    using True by (simp add: drop_moved_def event_op_def abs_set_list)
next
  case False
  obtain a b where ab: "transferArrayItem (get_list (previousContainer ev) s) (get_list (container ev) s)
      (previousIndex ev) (currentIndex ev) = (a, b)"
    by (cases "transferArrayItem (get_list (previousContainer ev) s) (get_list (container ev) s)
      (previousIndex ev) (currentIndex ev)")
  have "spec_transfer (lists_get (previousContainer ev) (abs_lists s)) (lists_get (container ev) (abs_lists s))
      (previousIndex ev) (currentIndex ev) = (deref (heap s) a, deref (heap s) b)"
    using map_transferArrayItem [of "\<lambda>r. heap s ! r" "get_list (previousContainer ev) s"
        "get_list (container ev) s" "previousIndex ev" "currentIndex ev"] ab
    by (simp add: deref_get_list [symmetric] transferArrayItem_spec [symmetric]) (simp add: deref_def)
  then show ?thesis
    using False ab by (simp add: drop_moved_def event_op_def abs_set_list todo_simps)
qed

section \<open>Properties of the component\<close>

text \<open>C1: in every reachable state no task object is in both arrays or twice in one
  array, and every reference in them denotes an existing object.\<close>

theorem reachable_each_task_once:
  "reachable s \<Longrightarrow>
     distinct (tasks s @ done_list s) \<and> list_all (\<lambda>r. r < length (heap s)) (tasks s @ done_list s)"
  using reachable_todo_inv by (simp add: todo_inv_def lists_ok_def)

theorem reachable_each_task_once_witness:
  "reachable demo_state \<and> distinct (tasks demo_state @ done_list demo_state)
   \<and> tasks demo_state = [1] \<and> done_list demo_state = [0]"
  using reachable_each_task_once [OF reachable_demo_state] reachable_demo_state demo_state_lists
  by simp

text \<open>C2: in every reachable state the storage is up to date: restoring it (what
  \<open>ngOnInit\<close> does on the next start) yields exactly the current pending and done
  sequences, in order.\<close>

theorem reachable_storage_restores:
  "reachable s \<Longrightarrow>
     restore (local_storage s) = Inr (deref (heap s) (tasks s), deref (heap s) (done_list s))"
  using reachable_todo_inv by (simp add: todo_inv_def storage_ok_def)

theorem reachable_storage_restores_witness:
  "reachable demo_state \<and>
   restore (local_storage demo_state) =
     Inr ([\<lparr>description = ''Walk dog'', task_done = False, editing = False\<rparr>],
          [\<lparr>description = ''Buy milk'', task_done = False, editing = False\<rparr>])"
  using reachable_storage_restores [OF reachable_demo_state] reachable_demo_state demo_state_lists
  by (simp add: deref_def)

text \<open>C3: in every reachable state exactly one timer is live, it is the one whose
  handle the component holds, it repeats with the (converted) delay of the current
  interval, and the interval is at least one minute.\<close>

theorem reachable_single_timer:
  "reachable s \<Longrightarrow>
     \<exists>h. notificationIntervalId s = Some h
        \<and> live (timer_env s) = [h \<mapsto> timer_delay (notificationInterval s * 60000)]
        \<and> 1 \<le> notificationInterval s"
proof -
  assume "reachable s"
  then have inv: "todo_inv s" by (rule reachable_todo_inv)
  then obtain h where "notificationIntervalId s = Some h"
    and "live (timer_env s) = [h \<mapsto> timer_delay (notificationInterval s * 60000)]"
    by (auto simp: todo_inv_def timer_ok_def split: option.splits)
  with inv show ?thesis by (auto simp: todo_inv_def)
qed

lemma demo_state_timer:
  "notificationIntervalId demo_state = Some 1 \<and> notificationInterval demo_state = 1
   \<and> live (timer_env demo_state) = [1 \<mapsto> 60000] \<and> next_handle (timer_env demo_state) = 2"
proof -
  have "notificationIntervalId demo_start = Some 1 \<and> notificationInterval demo_start = 1
      \<and> timer_env demo_start = \<lparr>live = [1 \<mapsto> timer_delay 60000], next_handle = 2\<rparr>"
    by (simp add: demo_start_def ngOnInit_empty start_notification_timer_eq todo_simps)
      (simp add: timers_init_def)
  moreover have "timer_delay 60000 = 60000"
    by (simp add: timer_delay_small)
  ultimately show ?thesis
    by (simp add: demo_state_def drop_eq addTask_eq todo_simps Let_def)
qed

theorem reachable_single_timer_witness:
  "reachable demo_state \<and> live (timer_env demo_state) = [1 \<mapsto> 60000]
   \<and> notificationIntervalId demo_state = Some 1"
  using reachable_single_timer [OF reachable_demo_state] reachable_demo_state demo_state_timer
  by simp

text \<open>C4: the component refines the specification's abstract machine on the two task
  sequences: every step from a reachable state moves the dereferenced arrays exactly by
  the abstract operation its event denotes (append for \<open>addTask\<close>, in-place edit at
  the task's position, removal at its position, reorder or transfer for \<open>drop\<close>, no
  change for the interval, timer and permission events).\<close>

theorem step_refines:
  assumes "reachable s" and "step e s = Some s'"
  shows "abs_lists s' = spec_apply (event_op s e) (abs_lists s)"
proof -
  have ok: "lists_ok s"
    using reachable_todo_inv [OF assms(1)] by (simp add: todo_inv_def)
  show ?thesis
  proof (cases e)
    case (Add_Task d)
    then show ?thesis using assms(2) abs_addTask [OF ok] by (auto simp: event_op_def)
  next
    case (Edit_Task r a)
    then have s': "s' = editTask r a s" and rl: "r < length (heap s)"
      using assms(2) by (simp_all split: if_splits)
    then show ?thesis using Edit_Task abs_editTask [OF ok rl] by simp
  next
    case (Delete_Task r name)
    then show ?thesis using assms(2) abs_deleteTask [of r name s] by (simp split: if_splits)
  next
    case (Drop ev)
    then show ?thesis
      using assms(2) abs_drop_moved [of ev s] drop_Some [of ev s s'] by (simp add: Let_def)
  next
    case (Set_New_Interval v)
    then show ?thesis using assms(2) by (auto simp: event_op_def abs_lists_def)
  next
    case Update_Interval
    then show ?thesis using assms(2) by (auto simp: event_op_def abs_lists_def todo_simps)
  next
    case (Timer_Fire h)
    then show ?thesis
      using assms(2) by (auto simp: event_op_def abs_lists_def todo_simps split: if_splits)
  next
    case (Permission_Answer p)
    then show ?thesis using assms(2) by (auto simp: event_op_def abs_lists_def)
  qed
qed

theorem step_refines_witness:
  "reachable demo_state
   \<and> step (Edit_Task 1 (Some ''Walk cat'')) demo_state = Some (editTask 1 (Some ''Walk cat'') demo_state)
   \<and> abs_lists (editTask 1 (Some ''Walk cat'') demo_state) =
       ([\<lparr>description = ''Walk cat'', task_done = False, editing = False\<rparr>],
        [\<lparr>description = ''Buy milk'', task_done = False, editing = False\<rparr>])"
proof -
  have st: "step (Edit_Task 1 (Some ''Walk cat'')) demo_state = Some (editTask 1 (Some ''Walk cat'') demo_state)"
    using demo_state_lists by simp
  have op: "event_op demo_state (Edit_Task 1 (Some ''Walk cat'')) = Op_Edit Tasks_List 0 (Some ''Walk cat'')"
    using demo_state_lists by (simp add: event_op_def)
  show ?thesis
    using step_refines [OF reachable_demo_state st] op reachable_demo_state st demo_state_lists
    by (simp add: abs_lists_def deref_def lists_get_def lists_set_def prompt_or_def)
qed

text \<open>C6: \<open>drop\<close> always returns: the CDK shifting loop it runs terminates for every
  event, whatever indices the event carries.\<close>

theorem drop_total:
  "\<exists>s'. drop ev s = Some s'"
  by (simp add: drop_eq)

text \<open>C7: a drop inside one list reorders it exactly as the specification says:
  the element at the (clamped) source index is removed and inserted at the (clamped)
  destination index; the other list and the task objects are untouched.\<close>

theorem drop_reorder:
  "previousContainer ev = container ev \<Longrightarrow> drop ev s = Some s' \<Longrightarrow>
     get_list l s' =
       (if l = container ev then move_ref (get_list l s) (previousIndex ev) (currentIndex ev)
        else get_list l s)
     \<and> heap s' = heap s"
  by (cases "l = container ev")
    (auto simp: drop_eq drop_moved_def Let_def todo_simps get_list_def set_list_def notify_def
       updateLocalStorage_def split: list_name.splits)


theorem drop_reorder_witness:
  "tasks (addTask ''c'' (addTask ''b'' (addTask ''a'' demo_start))) = [0, 1, 2]
   \<and> tasks (the (drop \<lparr>previousContainer = Tasks_List, container = Tasks_List,
                       previousIndex = 0, currentIndex = 2\<rparr>
                 (addTask ''c'' (addTask ''b'' (addTask ''a'' demo_start))))) = [1, 2, 0]"
proof -
  let ?s = "addTask ''c'' (addTask ''b'' (addTask ''a'' demo_start))"
  let ?ev = "\<lparr>previousContainer = Tasks_List, container = Tasks_List,
              previousIndex = 0, currentIndex = 2\<rparr>"
  have t: "tasks ?s = [0, 1, 2]"
    using demo_start_fields by (simp add: addTask_eq todo_simps)
  have d: "drop ?ev ?s = Some (the (drop ?ev ?s))"
    by (simp add: drop_eq)
  have "get_list Tasks_List (the (drop ?ev ?s)) = move_ref (get_list Tasks_List ?s) 0 2"
    using drop_reorder [of ?ev ?s "the (drop ?ev ?s)" Tasks_List, OF _ d] by simp
  then show ?thesis
    using t by (simp add: get_list_def move_ref_def clamp_def insert_at_def remove_at_def)
qed

text \<open>C8: a drop from one list into the other, when the source list is not empty,
  takes the element at the (clamped) source index out of the source list and inserts
  it at the (clamped) destination index of the target list.\<close>

theorem drop_transfer:
  assumes "previousContainer ev \<noteq> container ev"
    and "get_list (previousContainer ev) s \<noteq> []"
    and "drop ev s = Some s'"
  shows "(let src = nat (clamp (previousIndex ev) (int (length (get_list (previousContainer ev) s)) - 1));
              dst = nat (clamp (currentIndex ev) (int (length (get_list (container ev) s))))
          in get_list (previousContainer ev) s' = remove_at src (get_list (previousContainer ev) s)
             \<and> get_list (container ev) s' =
                 insert_at dst (get_list (previousContainer ev) s ! src) (get_list (container ev) s))
         \<and> heap s' = heap s"
proof -
  have tr: "transferArrayItem (get_list (previousContainer ev) s) (get_list (container ev) s)
        (previousIndex ev) (currentIndex ev) =
      (remove_at (nat (clamp (previousIndex ev) (int (length (get_list (previousContainer ev) s)) - 1)))
         (get_list (previousContainer ev) s),
       insert_at (nat (clamp (currentIndex ev) (int (length (get_list (container ev) s)))))
         (get_list (previousContainer ev) s !
            nat (clamp (previousIndex ev) (int (length (get_list (previousContainer ev) s)) - 1)))
         (get_list (container ev) s))"
    using transferArrayItem_moves [OF assms(2), of "previousIndex ev" "currentIndex ev"
        "get_list (container ev) s"] by (simp add: Let_def)
  show ?thesis
    using assms(1,3) tr
    by (auto simp: drop_eq drop_moved_def Let_def todo_simps)
qed

theorem drop_transfer_witness:
  "drop demo_transfer (addTask ''Walk dog'' (addTask ''Buy milk'' demo_start)) = Some demo_state
   \<and> tasks demo_state = remove_at 0 [0, 1] \<and> done_list demo_state = insert_at 0 0 []"
proof -
  let ?s = "addTask ''Walk dog'' (addTask ''Buy milk'' demo_start)"
  have t: "tasks ?s = [0, 1]" "done_list ?s = []"
    using demo_start_fields by (simp_all add: addTask_eq todo_simps)
  have d: "drop demo_transfer ?s = Some demo_state"
    by (simp add: demo_state_def drop_eq)
  have "get_list Tasks_List demo_state = remove_at 0 [0, 1]
      \<and> get_list Done_List demo_state = insert_at 0 0 []"
    using drop_transfer [of demo_transfer ?s demo_state] d t
    by (simp add: demo_transfer_def get_list_def clamp_def Let_def)
  with d show ?thesis by (simp add: get_list_def)
qed

text \<open>C9: after every drop, the message "All tasks completed!" is displayed exactly
  when no pending task is left (and the browser shows notifications); no other
  notification is displayed by a drop.\<close>

theorem drop_completion_notice:
  "drop ev s = Some s' \<Longrightarrow>
     shown (notif s') = shown (notif s) @
       (if \<not> has_pending_tasks s' \<and> supported (notif s) \<and> permission (notif s) = Perm_Granted
        then [(''Todo List'', ''All tasks completed!'')] else [])"
proof -
  assume d: "drop ev s = Some s'"
  let ?s2 = "updateLocalStorage (drop_moved ev s)"
  have hp: "has_pending_tasks (notify ''All tasks completed!'' ?s2) = has_pending_tasks ?s2"
    by (rule has_pending_tasks_cong) (simp_all add: todo_simps)
  show ?thesis
    using d hp by (auto simp: drop_eq Let_def todo_simps)
qed

theorem drop_completion_notice_witness:
  "drop demo_transfer (addTask ''Buy milk'' demo_start)
     = Some (the (drop demo_transfer (addTask ''Buy milk'' demo_start)))
   \<and> shown (notif (the (drop demo_transfer (addTask ''Buy milk'' demo_start)))) =
       [(''Todo List'', ''New Task added: Buy milk''), (''Todo List'', ''All tasks completed!'')]"
proof -
  let ?s = "addTask ''Buy milk'' demo_start"
  let ?s' = "the (drop demo_transfer ?s)"
  have d: "drop demo_transfer ?s = Some ?s'"
    by (simp add: drop_eq)
  have t: "tasks ?s' = []"
    using demo_start_fields
    by (simp add: drop_eq drop_moved_def demo_transfer_def addTask_eq todo_simps Let_def
        transferArrayItem_def clamp_def get_list_def set_list_def remove_at_def)
  have n: "notif ?s = demo_notif\<lparr>shown := [(''Todo List'', ''New Task added: Buy milk'')]\<rparr>"
    using demo_start_fields by (simp add: addTask_eq notify_def showNotification_def demo_notif_def todo_simps)
  show ?thesis
    using drop_completion_notice [OF d] d t n
    by (simp add: has_pending_tasks_def demo_notif_def)
qed

text \<open>C11: \<open>addTask\<close> appends a fresh not-done task object to the pending list,
  leaves the done list alone, writes both lists to storage, and always sends the
  "New Task added" notification (its pending-task guard can never fail, since the
  new task is pending).\<close>

theorem addTask_effect:
  "heap (addTask item s) = heap s @ [\<lparr>description = item, task_done = False, editing = False\<rparr>]
   \<and> tasks (addTask item s) = tasks s @ [length (heap s)]
   \<and> done_list (addTask item s) = done_list s
   \<and> storage_ok (addTask item s)
   \<and> shown (notif (addTask item s)) = shown (notif s) @
       (if supported (notif s) \<and> permission (notif s) = Perm_Granted
        then [(''Todo List'', ''New Task added: '' @ item)] else [])"
  by (simp add: addTask_eq todo_simps)

text \<open>Example: the specification's example: on a fresh start from empty storage,
  \<open>addTask("Buy milk")\<close> yields the pending sequence
  \<open>[{description: "Buy milk", done: false, editing: false}]\<close> and an empty done
  sequence, and storage restores exactly these.\<close>

lemma addTask_spec_example:
  "deref (heap (addTask ''Buy milk'' demo_start)) (tasks (addTask ''Buy milk'' demo_start))
     = [\<lparr>description = ''Buy milk'', task_done = False, editing = False\<rparr>]
   \<and> done_list (addTask ''Buy milk'' demo_start) = []
   \<and> restore (local_storage (addTask ''Buy milk'' demo_start))
     = Inr ([\<lparr>description = ''Buy milk'', task_done = False, editing = False\<rparr>], [])"
  using demo_start_fields storage_ok_addTask [of "''Buy milk''" demo_start]
  by (simp add: addTask_eq todo_simps deref_def storage_ok_def)

text \<open>C12: deleting a task that is in the named list removes it, so that it is in
  neither list afterwards, removes nothing else, and writes the lists to storage.\<close>

theorem deleteTask_present:
  assumes "reachable s" and "target_list l = Some lst" and "r \<in> set (get_list lst s)"
  shows "r \<notin> set (tasks (deleteTask r l s) @ done_list (deleteTask r l s))
     \<and> set (tasks (deleteTask r l s) @ done_list (deleteTask r l s)) = set (tasks s @ done_list s) - {r}
     \<and> restore (local_storage (deleteTask r l s))
         = Inr (deref (heap s) (tasks (deleteTask r l s)), deref (heap s) (done_list (deleteTask r l s)))"
proof -
  have d: "distinct (tasks s @ done_list s)"
    using reachable_todo_inv [OF assms(1)] by (simp add: todo_inv_def lists_ok_def)
  have st: "storage_ok (deleteTask r l s)"
    using assms(2,3) by (simp add: deleteTask_eq todo_simps)
  show ?thesis
  proof (cases lst)
    case Tasks_List
    then show ?thesis
      using assms(2,3) d st
      by (auto simp: deleteTask_eq todo_simps get_list_def set_list_def storage_ok_def
          set_remove1_eq)
  next
    case Done_List
    then show ?thesis
      using assms(2,3) d st
      by (auto simp: deleteTask_eq todo_simps get_list_def set_list_def storage_ok_def
          set_remove1_eq)
  qed
qed

theorem deleteTask_present_witness:
  "reachable demo_state \<and> target_list ''done'' = Some Done_List \<and> 0 \<in> set (done_list demo_state)
   \<and> tasks (deleteTask 0 ''done'' demo_state) @ done_list (deleteTask 0 ''done'' demo_state) = [1]"
proof -
  have h: "target_list ''done'' = Some Done_List" by (simp add: target_list_def)
  have m: "0 \<in> set (get_list Done_List demo_state)"
    using demo_state_lists by (simp add: get_list_def)
  have "set (tasks (deleteTask 0 ''done'' demo_state) @ done_list (deleteTask 0 ''done'' demo_state)) = {1}"
    using deleteTask_present [OF reachable_demo_state h m] demo_state_lists by auto
  moreover have "tasks (deleteTask 0 ''done'' demo_state) @ done_list (deleteTask 0 ''done'' demo_state)
      = remove1 0 [1, 0]"
    using demo_state_lists h m by (simp add: deleteTask_eq todo_simps get_list_def set_list_def)
  ultimately show ?thesis
    using reachable_demo_state h m demo_state_lists by (simp add: get_list_def)
qed

text \<open>C13: deleting a task that is not in the named list, or naming a list other than
  'tasks' and 'done', changes nothing (no array, no storage write).\<close>

theorem deleteTask_absent:
  "r \<notin> set (case target_list l of None \<Rightarrow> [] | Some lst \<Rightarrow> get_list lst s) \<Longrightarrow>
     deleteTask r l s = s"
  by (simp add: deleteTask_eq split: option.splits)

theorem deleteTask_absent_witness:
  "0 \<notin> set (tasks demo_state) \<and> deleteTask 0 ''tasks'' demo_state = demo_state
   \<and> deleteTask 1 ''pending'' demo_state = demo_state"
proof -
  have "0 \<notin> set (case target_list ''tasks'' of None \<Rightarrow> [] | Some lst \<Rightarrow> get_list lst demo_state)"
    using demo_state_lists by (simp add: target_list_def get_list_def)
  moreover have "(1::nat) \<notin> set (case target_list ''pending'' of None \<Rightarrow> [] | Some lst \<Rightarrow> get_list lst demo_state)"
    by (simp add: target_list_def)
  ultimately show ?thesis
    using deleteTask_absent [where r = 0 and l = "''tasks''" and s = demo_state]
      deleteTask_absent [where r = 1 and l = "''pending''" and s = demo_state]
      demo_state_lists by simp
qed

text \<open>C14: editing a task (object identity): in whichever list holds the task, the new
  description shows at the task's position; the other list is unaffected, and the
  storage restores the edited lists.  An empty or cancelled prompt keeps the old
  text.\<close>

theorem editTask_in_place:
  assumes "reachable s" and "i < length (get_list l s)" and "get_list l s ! i = r"
  shows "deref (heap (editTask r answer s)) (get_list k (editTask r answer s)) =
           (if k = l
            then (deref (heap s) (get_list l s))
                   [i := (heap s ! r)\<lparr>description := prompt_or answer (description (heap s ! r))\<rparr>]
            else deref (heap s) (get_list k s))
     \<and> restore (local_storage (editTask r answer s)) =
         Inr (deref (heap (editTask r answer s)) (tasks (editTask r answer s)),
              deref (heap (editTask r answer s)) (done_list (editTask r answer s)))"
proof -
  have d: "distinct (tasks s @ done_list s)" "list_all (\<lambda>r. r < length (heap s)) (tasks s @ done_list s)"
    using reachable_todo_inv [OF assms(1)] by (simp_all add: todo_inv_def lists_ok_def)
  have dl: "distinct (get_list l s)" using d(1) by (cases l) (simp_all add: get_list_def)
  have rin: "r \<in> set (get_list l s)" using assms(2,3) nth_mem by blast
  have rl: "r < length (heap s)" using d(2) rin by (cases l) (auto simp: get_list_def list_all_iff)
  have ro: "r \<notin> set (get_list k s)" if "k \<noteq> l"
    using d(1) rin that by (cases k; cases l) (auto simp: get_list_def)
  have gk: "get_list k (editTask r answer s) = get_list k s"
    by (cases k) (simp_all add: editTask_def todo_simps get_list_def)
  have "deref (heap (editTask r answer s)) (get_list k (editTask r answer s)) =
           (if k = l
            then (deref (heap s) (get_list l s))
                   [i := (heap s ! r)\<lparr>description := prompt_or answer (description (heap s ! r))\<rparr>]
            else deref (heap s) (get_list k s))"
    using deref_update_at [OF dl assms(2,3)] deref_update_other [OF ro] rl gk
    by (simp add: editTask_def todo_simps)
  then show ?thesis
    using storage_ok_editTask [of r answer s] by (simp add: storage_ok_def)
qed

theorem editTask_in_place_witness:
  "reachable demo_state \<and> get_list Done_List demo_state ! 0 = 0
   \<and> deref (heap (editTask 0 (Some ''Buy bread'') demo_state)) (done_list (editTask 0 (Some ''Buy bread'') demo_state))
       = [\<lparr>description = ''Buy bread'', task_done = False, editing = False\<rparr>]
   \<and> deref (heap (editTask 0 (Some ''Buy bread'') demo_state)) (tasks (editTask 0 (Some ''Buy bread'') demo_state))
       = [\<lparr>description = ''Walk dog'', task_done = False, editing = False\<rparr>]"
proof -
  have g: "0 < length (get_list Done_List demo_state)" "get_list Done_List demo_state ! 0 = 0"
    using demo_state_lists by (simp_all add: get_list_def)
  show ?thesis
    using editTask_in_place [OF reachable_demo_state g, of "Some ''Buy bread''" Done_List]
      editTask_in_place [OF reachable_demo_state g, of "Some ''Buy bread''" Tasks_List]
      reachable_demo_state demo_state_lists g
    by (simp add: get_list_def deref_def prompt_or_def)
qed

end
