(* ===== verification/Todo_Runs.thy ===== *)
theory Todo_Runs
  imports Todo_Component
begin

text \<open>
  Behaviour of \<open>TodoComponent\<close> over runs: the interval handlers and the timer they
  keep (\<open>updateNotificationInterval\<close>, \<open>restartNotificationInterval\<close>, the timer
  callback \<open>checkAndNotify\<close>), the start-up handler \<open>ngOnInit\<close> on a stored or a
  corrupt \<open>localStorage\<close>, the pending-task check on event sequences (\<open>run\<close>), and
  the places where the code and the specification disagree, each shown on a concrete
  run of the model.
\<close>

subsection \<open>Facts about runs\<close>

lemma reachable_timer_ok:
  "reachable s \<Longrightarrow> timer_ok s"
  using reachable_todo_inv by (simp add: todo_inv_def)

text \<open>Every state a run reaches from a reachable state is reachable.\<close>

lemma reachable_run:
  "reachable s \<Longrightarrow> run es s = Some s' \<Longrightarrow> reachable s'"
proof (induction es arbitrary: s)
  case (Cons e es)
  then show ?case by (auto intro: reachable.step split: option.splits)
qed simp

lemma demo_start_timer:
  "notificationIntervalId demo_start = Some 1 \<and> notificationInterval demo_start = 1
   \<and> timer_env demo_start = \<lparr>live = [1 \<mapsto> 60000], next_handle = 2\<rparr>"
proof -
  have "timer_delay 60000 = 60000" by (simp add: timer_delay_small)
  then show ?thesis
    by (simp add: demo_start_def ngOnInit_empty start_notification_timer_eq todo_simps timers_init_def)
qed

lemma demo_state_notif:
  "notif demo_state = demo_notif\<lparr>shown := [(''Todo List'', ''New Task added: Buy milk''),
                                          (''Todo List'', ''New Task added: Walk dog'')]\<rparr>"
proof -
  have "has_pending_tasks (updateLocalStorage (drop_moved demo_transfer
          (addTask ''Walk dog'' (addTask ''Buy milk'' demo_start))))"
    using demo_start_fields
    by (simp add: has_pending_tasks_def drop_moved_def demo_transfer_def addTask_eq todo_simps
        transferArrayItem_def clamp_def get_list_def set_list_def remove_at_def insert_at_def)
  then show ?thesis
    using demo_start_fields
    by (simp add: demo_state_def drop_eq addTask_eq todo_simps Let_def notify_def
        showNotification_def demo_notif_def)
qed

text \<open>\<open>ngOnInit\<close> on a storage whose two entries are readable, as one state expression.\<close>

lemma ngOnInit_stored:
  assumes t: "stored_list st ''tasks'' = Inr t" and d: "stored_list st ''done'' = Inr d"
  shows "ngOnInit (component_init st n) =
     Inr (start_notification_timer (checkAndNotify
           ((alloc_list Done_List (case d of None \<Rightarrow> [] | Some ds \<Rightarrow> ds)
              (alloc_list Tasks_List (case t of None \<Rightarrow> [] | Some ts \<Rightarrow> ts) (component_init st n)))
            \<lparr>notif := requestPermission n\<rparr>)))"
proof -
  let ?s1 = "alloc_list Tasks_List (case t of None \<Rightarrow> [] | Some ts \<Rightarrow> ts) (component_init st n)"
  have s1: "(case t of None \<Rightarrow> component_init st n | Some ts \<Rightarrow> alloc_list Tasks_List ts (component_init st n))
      = ?s1"
    by (rule alloc_case_option) (simp add: todo_simps)
  have s2: "(case d of None \<Rightarrow> ?s1 | Some ds \<Rightarrow> alloc_list Done_List ds ?s1)
      = alloc_list Done_List (case d of None \<Rightarrow> [] | Some ds \<Rightarrow> ds) ?s1"
    by (rule alloc_case_option) (simp add: alloc_list_def get_list_def set_list_def component_init_def)
  show ?thesis
    using t d s1 s2 by (simp add: ngOnInit_def todo_simps Let_def)
qed

lemma has_pending_deref:
  "has_pending_tasks s = list_ex (\<lambda>t. \<not> task_done t) (deref (heap s) (tasks s))"
  by (simp add: has_pending_tasks_def deref_def list_ex_iff)

lemma deref_upt_0:
  "deref (ts @ ds) [0 ..< length ts] = ts"
  using deref_upt [of "[]" ts] deref_append_heap [of "[0 ..< length ts]" ts ds] by simp

text \<open>The fields of the state \<open>ngOnInit\<close> produces.\<close>

lemma init_result_fields:
  assumes "s = start_notification_timer (checkAndNotify
           ((alloc_list Done_List ds (alloc_list Tasks_List ts (component_init st n)))
            \<lparr>notif := requestPermission n\<rparr>))"
  shows "heap s = ts @ ds" "tasks s = [0 ..< length ts]"
    "done_list s = [length ts ..< length ts + length ds]" "local_storage s = st"
    "notificationInterval s = 1" "notificationIntervalId s = Some 1"
    "timer_env s = \<lparr>live = [1 \<mapsto> 60000], next_handle = 2\<rparr>"
    "notif s = (if list_ex (\<lambda>t. \<not> task_done t) ts
                then showNotification ''You have pending tasks in the Todo list!'' (requestPermission n)
                else requestPermission n)"
proof -
  have d: "timer_delay 60000 = 60000" by (simp add: timer_delay_small)
  let ?s3 = "(alloc_list Done_List ds (alloc_list Tasks_List ts (component_init st n)))
            \<lparr>notif := requestPermission n\<rparr>"
  have h3: "heap ?s3 = ts @ ds" "tasks ?s3 = [0 ..< length ts]"
    by (simp_all add: todo_simps alloc_list_def set_list_def component_init_def)
  have p: "has_pending_tasks ?s3 = list_ex (\<lambda>t. \<not> task_done t) ts"
    by (simp add: has_pending_deref h3 deref_upt_0)
  show "heap s = ts @ ds" "tasks s = [0 ..< length ts]"
    "done_list s = [length ts ..< length ts + length ds]" "local_storage s = st"
    "notificationInterval s = 1" "notificationIntervalId s = Some 1"
    "timer_env s = \<lparr>live = [1 \<mapsto> 60000], next_handle = 2\<rparr>"
    by (simp_all add: assms start_notification_timer_eq todo_simps alloc_list_def set_list_def
        component_init_def timers_init_def d)
  show "notif s = (if list_ex (\<lambda>t. \<not> task_done t) ts
                then showNotification ''You have pending tasks in the Todo list!'' (requestPermission n)
                else requestPermission n)"
    using p by (simp add: assms start_notification_timer_eq checkAndNotify_def notify_def)
qed

lemma restore_Inr:
  assumes "restore st = Inr (ts, ds)"
  obtains t d where "stored_list st ''tasks'' = Inr t" "stored_list st ''done'' = Inr d"
    "ts = (case t of None \<Rightarrow> [] | Some ts \<Rightarrow> ts)" "ds = (case d of None \<Rightarrow> [] | Some ds \<Rightarrow> ds)"
  using assms by (auto simp: restore_def split: sum.splits)

text \<open>No handler sets a \<open>done\<close> flag.\<close>

lemma flags_clear_step:
  assumes "flags_clear s" and "step e s = Some s'"
  shows "flags_clear s'"
proof (cases e)
  case (Edit_Task r answer)
  have "set ((heap s)[r := (heap s ! r)\<lparr>description := prompt_or answer (description (heap s ! r))\<rparr>])
      \<subseteq> insert ((heap s ! r)\<lparr>description := prompt_or answer (description (heap s ! r))\<rparr>) (set (heap s))"
    by (rule set_update_subset_insert)
  moreover have "r < length (heap s)" using assms Edit_Task by (simp split: if_splits)
  ultimately show ?thesis
    using assms Edit_Task
    by (auto simp: flags_clear_def editTask_def todo_simps list_all_iff split: if_splits)
next
  case (Drop ev)
  then show ?thesis using assms drop_frame [of ev s s'] by (simp add: flags_clear_def)
qed (use assms in \<open>auto simp: flags_clear_def addTask_eq todo_simps split: if_splits\<close>)

lemma flags_clear_run:
  "flags_clear s \<Longrightarrow> run es s = Some s' \<Longrightarrow> flags_clear s'"
proof (induction es arbitrary: s)
  case (Cons e es)
  then show ?case by (auto intro: flags_clear_step split: option.splits)
qed simp

lemma has_pending_flags_clear:
  "lists_ok s \<Longrightarrow> flags_clear s \<Longrightarrow> has_pending_tasks s \<longleftrightarrow> tasks s \<noteq> []"
  by (cases "tasks s") (auto simp: has_pending_tasks_def lists_ok_def flags_clear_def list_all_iff)

lemma notif_notify_not_granted:
  "permission (notif s) \<noteq> Perm_Granted \<Longrightarrow> notif (notify m s) = notif s"
  by (simp add: notify_def)

lemma step_notif_edit: "step (Edit_Task r answer) s = Some s' \<Longrightarrow> notif s' = notif s"
  by (auto simp: editTask_def todo_simps split: if_splits)

lemma step_notif_delete: "step (Delete_Task r l) s = Some s' \<Longrightarrow> notif s' = notif s"
  by (auto simp: todo_simps split: if_splits)

lemma step_notif_drop: "permission (notif s) \<noteq> Perm_Granted \<Longrightarrow> step (Drop ev) s = Some s' \<Longrightarrow> notif s' = notif s"
  by (auto simp: drop_eq Let_def notif_notify_not_granted todo_simps)

lemma step_notif_timer: "permission (notif s) \<noteq> Perm_Granted \<Longrightarrow> step (Timer_Fire h) s = Some s' \<Longrightarrow> notif s' = notif s"
  by (auto simp: checkAndNotify_def notif_notify_not_granted split: if_splits)

lemma step_notif_update: "step Update_Interval s = Some s' \<Longrightarrow> notif s' = notif s"
  by (auto simp: todo_simps)

lemma step_notif_permission: "p \<noteq> Perm_Granted \<Longrightarrow> step (Permission_Answer p) s = Some s' \<Longrightarrow>
   permission (notif s') \<noteq> Perm_Granted \<and> shown (notif s') = shown (notif s)"
  using permission_settled_frame [of p "notif s"] by auto

text \<open>Without permission no event other than granting it displays anything.\<close>

lemma step_silent:
  assumes np: "permission (notif s) \<noteq> Perm_Granted" and ne: "e \<noteq> Permission_Answer Perm_Granted"
    and st: "step e s = Some s'"
  shows "permission (notif s') \<noteq> Perm_Granted \<and> shown (notif s') = shown (notif s)"
proof -
  have "notif s' = notif s" if "\<forall>p. e \<noteq> Permission_Answer p"
  proof (cases e)
    case (Add_Task item)
    then show ?thesis using np st by (auto simp: addTask_eq notif_notify_not_granted todo_simps)
  next
    case (Edit_Task r a)
    show ?thesis by (rule step_notif_edit [of r a]) (use Edit_Task st in simp)
  next
    case (Delete_Task r l)
    show ?thesis by (rule step_notif_delete [of r l]) (use Delete_Task st in simp)
  next
    case (Drop ev)
    show ?thesis by (rule step_notif_drop [OF np, of ev]) (use Drop st in simp)
  next
    case (Set_New_Interval v)
    then show ?thesis using st by auto
  next
    case Update_Interval
    show ?thesis by (rule step_notif_update) (use Update_Interval st in simp)
  next
    case (Timer_Fire h)
    show ?thesis by (rule step_notif_timer [OF np, of h]) (use Timer_Fire st in simp)
  next
    case (Permission_Answer p)
    then show ?thesis using that by simp
  qed
  moreover have "permission (notif s') \<noteq> Perm_Granted \<and> shown (notif s') = shown (notif s)"
    if "e = Permission_Answer p" for p
    using that ne st step_notif_permission [of p s s'] by simp
  ultimately show ?thesis using np by (cases e) auto
qed

lemma has_pending_updateLocalStorage:
  "has_pending_tasks (updateLocalStorage s) = has_pending_tasks s"
  by (rule has_pending_tasks_cong) (simp_all add: todo_simps)

text \<open>The arrays and notifications after \<open>drop\<close>.\<close>

lemma drop_result_fields:
  "tasks (the (drop ev s)) = tasks (drop_moved ev s)"
  "done_list (the (drop ev s)) = done_list (drop_moved ev s)"
  "notif (the (drop ev s)) =
     (if has_pending_tasks (drop_moved ev s) then notif s
      else showNotification ''All tasks completed!'' (notif s))"
  by (simp_all add: drop_eq Let_def todo_simps has_pending_updateLocalStorage notify_def)

lemma stored_list_error_key:
  "stored_list st key = Inl e \<Longrightarrow>
     e = Json_Syntax_Error key \<or> e = Unmodelled_Json key \<or> e = Not_Task_Array key"
  by (auto simp: stored_list_def split: option.splits if_splits)

subsection \<open>The interval and the timer\<close>

text \<open>C10: \<open>updateNotificationInterval\<close> in a reachable state sets the interval to the coerced input, clears the input field, cancels the running timer and starts exactly one new timer with a fresh handle and the new period.\<close>

theorem updateNotificationInterval_restarts:
  assumes "reachable s"
  shows "notificationInterval (updateNotificationInterval s) = coerce_interval (newNotificationInterval s)
     \<and> newNotificationInterval (updateNotificationInterval s) = None
     \<and> notificationIntervalId (updateNotificationInterval s) = Some (next_handle (timer_env s))
     \<and> notificationIntervalId (updateNotificationInterval s) \<noteq> notificationIntervalId s
     \<and> live (timer_env (updateNotificationInterval s)) =
         [next_handle (timer_env s) \<mapsto> timer_delay (coerce_interval (newNotificationInterval s) * 60000)]"
proof -
  have t: "timer_ok s" using assms by (rule reachable_timer_ok)
  then obtain h where "notificationIntervalId s = Some h" "h < next_handle (timer_env s)"
    by (auto simp: timer_ok_def split: option.splits)
  then show ?thesis
    using updateNotificationInterval_timer [OF t] by (auto simp: todo_simps)
qed

theorem updateNotificationInterval_restarts_witness:
  "reachable (demo_state\<lparr>newNotificationInterval := Some 5\<rparr>)
   \<and> notificationInterval (updateNotificationInterval (demo_state\<lparr>newNotificationInterval := Some 5\<rparr>)) = 5
   \<and> notificationIntervalId (updateNotificationInterval (demo_state\<lparr>newNotificationInterval := Some 5\<rparr>)) = Some 2
   \<and> live (timer_env (updateNotificationInterval (demo_state\<lparr>newNotificationInterval := Some 5\<rparr>))) = [2 \<mapsto> 300000]"
proof -
  have r: "reachable (demo_state\<lparr>newNotificationInterval := Some 5\<rparr>)"
    by (rule reachable.step [OF reachable_demo_state, of "Set_New_Interval (Some 5)"]) simp
  have c: "coerce_interval (Some 5) = 5" by (simp add: coerce_interval_def)
  have d: "timer_delay 300000 = 300000" by (simp add: timer_delay_small)
  show ?thesis
    using updateNotificationInterval_restarts [OF r] r demo_state_timer c d by simp
qed

text \<open>C19: the coercion \<open>Math.max(1, Math.abs(Math.floor(v || 0)))\<close> gives 1 for an absent input, the floor (at least 1) of a non-negative input, and the ceiling of the magnitude of a negative input.\<close>

theorem coerce_interval_cases:
  "coerce_interval v =
     (case v of None \<Rightarrow> 1 | Some x \<Rightarrow> if 0 \<le> x then max 1 \<lfloor>x\<rfloor> else \<lceil>- x\<rceil>)"
proof (cases v)
  case (Some x)
  show ?thesis
  proof (cases "0 \<le> x")
    case False
    then have fl: "\<lfloor>x\<rfloor> < 0" by simp
    have ce: "\<lceil>- x\<rceil> = - \<lfloor>x\<rfloor>" by (simp add: ceiling_def)
    have "\<bar>\<lfloor>x\<rfloor>\<bar> = \<lceil>- x\<rceil>" and "1 \<le> \<lceil>- x\<rceil>"
      unfolding ce using fl by arith+
    then show ?thesis using Some False by (simp add: coerce_interval_def)
  qed (simp add: Some coerce_interval_def)
qed (simp add: coerce_interval_def)

text \<open>Example: the specification's example \<open>setInterval(-3.7)\<close> with the literal 3, and its rule that a negative input is coerced to 1, are not what the code does: the code floors before taking the magnitude, so -3.7 gives 4 and -5 gives 5.\<close>

lemma coerce_interval_spec_example:
  "coerce_interval (Some (- 37 / 10)) = 4 \<and> coerce_interval (Some (- 5)) = 5"
  by (simp add: coerce_interval_def)

text \<open>C17: in every reachable state whose interval is at most 35791 minutes, the single live timer repeats with exactly the interval in milliseconds.\<close>

theorem timer_period_exact:
  "reachable s \<Longrightarrow> notificationInterval s \<le> 35791 \<Longrightarrow>
     \<exists>h. notificationIntervalId s = Some h \<and> live (timer_env s) = [h \<mapsto> notificationInterval s * 60000]"
proof -
  assume r: "reachable s" and le: "notificationInterval s \<le> 35791"
  have inv: "todo_inv s" using r by (rule reachable_todo_inv)
  then have "timer_delay (notificationInterval s * 60000) = notificationInterval s * 60000"
    using le by (intro timer_delay_small) (simp_all add: todo_inv_def)
  with inv show ?thesis
    by (auto simp: todo_inv_def timer_ok_def split: option.splits)
qed

theorem timer_period_exact_witness:
  "reachable demo_state \<and> notificationInterval demo_state \<le> 35791
   \<and> live (timer_env demo_state) = [1 \<mapsto> 60000]"
  using timer_period_exact [OF reachable_demo_state] reachable_demo_state demo_state_timer by simp

text \<open>C18: in a reachable state whose interval is between 35792 and 71582 minutes, the delay overflows the 32-bit WebIDL \<open>long\<close> and becomes negative, so the live timer repeats with delay 0 instead of the interval; such a state is reached by entering 35792 in the interval field.\<close>

theorem timer_period_wraps:
  "reachable s \<Longrightarrow> 35792 \<le> notificationInterval s \<Longrightarrow> notificationInterval s \<le> 71582 \<Longrightarrow>
     \<exists>h. notificationIntervalId s = Some h \<and> live (timer_env s) = [h \<mapsto> 0]"
proof -
  assume r: "reachable s" and lo: "35792 \<le> notificationInterval s" and hi: "notificationInterval s \<le> 71582"
  have "timer_delay (notificationInterval s * 60000) = 0"
    using lo hi by (intro timer_delay_wraps_zero) simp_all
  with reachable_timer_ok [OF r] show ?thesis
    by (auto simp: timer_ok_def split: option.splits)
qed

theorem timer_period_wraps_witness:
  "reachable (updateNotificationInterval (demo_state\<lparr>newNotificationInterval := Some 35792\<rparr>))
   \<and> notificationInterval (updateNotificationInterval (demo_state\<lparr>newNotificationInterval := Some 35792\<rparr>)) = 35792
   \<and> live (timer_env (updateNotificationInterval (demo_state\<lparr>newNotificationInterval := Some 35792\<rparr>))) = [2 \<mapsto> 0]"
proof -
  let ?s = "demo_state\<lparr>newNotificationInterval := Some 35792\<rparr>"
  have r0: "reachable ?s"
    by (rule reachable.step [OF reachable_demo_state, of "Set_New_Interval (Some 35792)"]) simp
  have r: "reachable (updateNotificationInterval ?s)"
    by (rule reachable.step [OF r0, of Update_Interval]) simp
  have c: "coerce_interval (Some 35792) = 35792" by (simp add: coerce_interval_def)
  have i: "notificationInterval (updateNotificationInterval ?s) = 35792"
    and h: "notificationIntervalId (updateNotificationInterval ?s) = Some 2"
    using updateNotificationInterval_timer [OF reachable_timer_ok [OF r0]] demo_state_timer c by simp_all
  show ?thesis
    using timer_period_wraps [OF r] r i h by auto
qed

text \<open>C20: a live timer firing runs \<open>checkAndNotify\<close>: it changes nothing but the notifications, and displays the reminder exactly when a pending task exists (and the browser shows notifications).\<close>

theorem timer_fire_reminder:
  "step (Timer_Fire h) s = Some s' \<Longrightarrow>
     live (timer_env s) h \<noteq> None \<and> s'\<lparr>notif := notif s\<rparr> = s
     \<and> shown (notif s') = shown (notif s) @
         (if has_pending_tasks s \<and> supported (notif s) \<and> permission (notif s) = Perm_Granted
          then [(''Todo List'', ''You have pending tasks in the Todo list!'')] else [])"
  by (auto simp: checkAndNotify_def notify_def showNotification_shown split: if_splits)

theorem timer_fire_reminder_witness:
  "step (Timer_Fire 1) demo_state = Some (checkAndNotify demo_state)
   \<and> shown (notif (checkAndNotify demo_state)) =
       [(''Todo List'', ''New Task added: Buy milk''), (''Todo List'', ''New Task added: Walk dog''),
        (''Todo List'', ''You have pending tasks in the Todo list!'')]"
proof -
  have st: "step (Timer_Fire 1) demo_state = Some (checkAndNotify demo_state)"
    using demo_state_timer by simp
  have p: "has_pending_tasks demo_state"
    using demo_state_lists by (simp add: has_pending_tasks_def)
  show ?thesis
    using timer_fire_reminder [OF st] st p demo_state_notif by (simp add: demo_notif_def)
qed

subsection \<open>Start-up\<close>

text \<open>C15: on a storage that restores the arrays \<open>ts\<close> and \<open>ds\<close>, \<open>ngOnInit\<close> succeeds with exactly these arrays, asks for permission once (when it is not yet granted), checks for pending tasks once, and starts one timer of one minute.\<close>

theorem ngOnInit_restores:
  assumes "restore st = Inr (ts, ds)"
  shows "\<exists>s. ngOnInit (component_init st n) = Inr s
     \<and> deref (heap s) (tasks s) = ts \<and> deref (heap s) (done_list s) = ds
     \<and> pending_requests (notif s) =
         pending_requests n + (if supported n \<and> permission n \<noteq> Perm_Granted then 1 else 0)
     \<and> notificationIntervalId s = Some 1 \<and> live (timer_env s) = [1 \<mapsto> 60000]
     \<and> shown (notif s) = shown n @
         (if list_ex (\<lambda>t. \<not> task_done t) ts \<and> supported n \<and> permission n = Perm_Granted
          then [(''Todo List'', ''You have pending tasks in the Todo list!'')] else [])"
proof -
  obtain t d where t: "stored_list st ''tasks'' = Inr t" and d: "stored_list st ''done'' = Inr d"
    and ts: "ts = (case t of None \<Rightarrow> [] | Some ts \<Rightarrow> ts)" and ds: "ds = (case d of None \<Rightarrow> [] | Some ds \<Rightarrow> ds)"
    using assms by (rule restore_Inr)
  define s where "s = start_notification_timer (checkAndNotify
           ((alloc_list Done_List ds (alloc_list Tasks_List ts (component_init st n)))
            \<lparr>notif := requestPermission n\<rparr>))"
  have i: "ngOnInit (component_init st n) = Inr s"
    using ngOnInit_stored [OF t d, of n] by (simp add: s_def ts ds)
  note f = init_result_fields [OF s_def]
  have "deref (heap s) (tasks s) = ts" "deref (heap s) (done_list s) = ds"
    by (simp_all add: f deref_upt_0 deref_upt)
  then show ?thesis
    using i f by (auto simp: showNotification_shown requestPermission_effect)
qed

theorem ngOnInit_restores_witness:
  "restore (persist [\<lparr>description = ''Buy milk'', task_done = False, editing = False\<rparr>] [] Map.empty)
     = Inr ([\<lparr>description = ''Buy milk'', task_done = False, editing = False\<rparr>], [])
   \<and> (\<exists>s. ngOnInit (component_init
            (persist [\<lparr>description = ''Buy milk'', task_done = False, editing = False\<rparr>] [] Map.empty)
            demo_notif) = Inr s
        \<and> shown (notif s) = [(''Todo List'', ''You have pending tasks in the Todo list!'')])"
proof -
  have r: "restore (persist [\<lparr>description = ''Buy milk'', task_done = False, editing = False\<rparr>] [] Map.empty)
     = Inr ([\<lparr>description = ''Buy milk'', task_done = False, editing = False\<rparr>], [])"
    by (rule restore_of_persist)
  show ?thesis
    using ngOnInit_restores [OF r, of demo_notif] r by (auto simp: demo_notif_def)
qed

text \<open>C16: for a non-empty stored \<open>tasks\<close> entry, \<open>ngOnInit\<close> throws a syntax error
  (on \<open>tasks\<close>) exactly when the entry is not a JSON text, whatever else the state
  holds; the specification says corrupt entries are read as empty sequences.\<close>

theorem ngOnInit_corrupt_storage:
  "local_storage s = st \<Longrightarrow> st ''tasks'' = Some v \<Longrightarrow> v \<noteq> [] \<Longrightarrow>
     ngOnInit s = Inl (Json_Syntax_Error ''tasks'') \<longleftrightarrow> \<not> json_valid v"
proof -
  assume a: "local_storage s = st" "st ''tasks'' = Some v" "v \<noteq> []"
  show ?thesis
  proof (cases "json_valid v")
    case False
    then have "json_parse v = None" using json_parse_valid [of v] by (cases "json_parse v") auto
    then show ?thesis using a False by (simp add: ngOnInit_def stored_list_def)
  next
    case True
    then have "stored_list st ''tasks'' \<noteq> Inl (Json_Syntax_Error ''tasks'')"
      using a by (auto simp: stored_list_def split: option.split)
    then have "ngOnInit s \<noteq> Inl (Json_Syntax_Error ''tasks'')"
      using a stored_list_error_key [of "local_storage (case t of None \<Rightarrow> s | Some ts \<Rightarrow> alloc_list Tasks_List ts s)"
          "''done''" for t]
      by (auto simp: ngOnInit_def Let_def split: sum.split)
    then show ?thesis using True by simp
  qed
qed

theorem ngOnInit_corrupt_storage_witness:
  "ngOnInit (component_init [''tasks'' \<mapsto> ''[''] demo_notif) = Inl (Json_Syntax_Error ''tasks'')
   \<and> ngOnInit (component_init [''tasks'' \<mapsto> ''[1.5]''] demo_notif) \<noteq> Inl (Json_Syntax_Error ''tasks'')"
  using ngOnInit_corrupt_storage [of "component_init [''tasks'' \<mapsto> ''[''] demo_notif"
        "[''tasks'' \<mapsto> ''['']" "''[''"]
    ngOnInit_corrupt_storage [of "component_init [''tasks'' \<mapsto> ''[1.5]''] demo_notif"
        "[''tasks'' \<mapsto> ''[1.5]'']" "''[1.5]''"]
    json_valid_examples
  by (simp add: todo_simps)

subsection \<open>The pending-task check\<close>

text \<open>C21: as long as no task object carries a set \<open>done\<close> flag (the handlers never set one), the code's check \<open>tasks.some(task => !task.done)\<close> after any sequence of events from a reachable state is the specification's check "the pending sequence is non-empty".\<close>

theorem pending_check_flags:
  "reachable s \<Longrightarrow> flags_clear s \<Longrightarrow> run es s = Some s' \<Longrightarrow>
     has_pending_tasks s' \<longleftrightarrow> tasks s' \<noteq> []"
  using reachable_run [of s es s'] flags_clear_run [of s es s'] reachable_todo_inv [of s']
  by (simp add: has_pending_flags_clear todo_inv_def)

theorem pending_check_flags_witness:
  "reachable demo_start \<and> flags_clear demo_start
   \<and> run [Add_Task ''a'', Drop demo_transfer] demo_start = Some (the (drop demo_transfer (addTask ''a'' demo_start)))
   \<and> tasks (the (drop demo_transfer (addTask ''a'' demo_start))) = []
   \<and> \<not> has_pending_tasks (the (drop demo_transfer (addTask ''a'' demo_start)))"
proof -
  let ?s = "the (drop demo_transfer (addTask ''a'' demo_start))"
  have f: "flags_clear demo_start" using demo_start_fields by (simp add: flags_clear_def)
  have r: "run [Add_Task ''a'', Drop demo_transfer] demo_start = Some ?s"
    by (simp add: drop_eq)
  have t: "tasks ?s = []"
    using demo_start_fields
    by (simp add: drop_eq drop_moved_def demo_transfer_def addTask_eq todo_simps Let_def
        transferArrayItem_def clamp_def get_list_def set_list_def remove_at_def)
  show ?thesis
    using pending_check_flags [OF reachable_demo_start f r] reachable_demo_start f r t by simp
qed

text \<open>Example: with a stored pending task whose \<open>done\<close> flag is set, the two checks differ: after start-up the pending sequence is non-empty, yet no reminder is shown at start-up or when the timer fires.\<close>

lemma stored_done_flag_divergence:
  "\<exists>s. ngOnInit (component_init
          (persist [\<lparr>description = ''x'', task_done = True, editing = False\<rparr>] [] Map.empty) demo_notif) = Inr s
     \<and> reachable s \<and> tasks s = [0] \<and> \<not> has_pending_tasks s \<and> shown (notif s) = []
     \<and> step (Timer_Fire 1) s = Some s"
proof -
  let ?t = "\<lparr>description = ''x'', task_done = True, editing = False\<rparr>"
  let ?st = "persist [?t] [] Map.empty"
  obtain t d where t: "stored_list ?st ''tasks'' = Inr t" and d: "stored_list ?st ''done'' = Inr d"
    and ts: "[?t] = (case t of None \<Rightarrow> [] | Some ts \<Rightarrow> ts)" and ds: "[] = (case d of None \<Rightarrow> [] | Some ds \<Rightarrow> ds)"
    using restore_of_persist [of "[?t]" "[]" Map.empty] by (rule restore_Inr)
  define s where "s = start_notification_timer (checkAndNotify
           ((alloc_list Done_List [] (alloc_list Tasks_List [?t] (component_init ?st demo_notif)))
            \<lparr>notif := requestPermission demo_notif\<rparr>))"
  have i: "ngOnInit (component_init ?st demo_notif) = Inr s"
    using ngOnInit_stored [OF t d, of demo_notif] by (simp add: s_def ts [symmetric] ds [symmetric])
  note f = init_result_fields [OF s_def]
  have "\<not> has_pending_tasks s" by (simp add: has_pending_tasks_def f)
  moreover have "step (Timer_Fire 1) s = Some s"
    using calculation by (simp add: f checkAndNotify_def)
  ultimately show ?thesis
    using i f reachable.init [OF i]
    by (auto simp: demo_notif_def requestPermission_def)
qed

text \<open>C22: while permission is not granted and the user does not grant it, no sequence of events displays a notification.\<close>

theorem permission_not_granted_silent:
  "permission (notif s) \<noteq> Perm_Granted \<Longrightarrow> Permission_Answer Perm_Granted \<notin> set es \<Longrightarrow>
     run es s = Some s' \<Longrightarrow> shown (notif s') = shown (notif s)"
proof (induction es arbitrary: s)
  case (Cons e es)
  obtain s1 where s1: "step e s = Some s1" and r: "run es s1 = Some s'"
    using Cons.prems(3) by (cases "step e s") simp_all
  have e: "e \<noteq> Permission_Answer Perm_Granted" and es: "Permission_Answer Perm_Granted \<notin> set es"
    using Cons.prems(2) by auto
  have "permission (notif s1) \<noteq> Perm_Granted \<and> shown (notif s1) = shown (notif s)"
    using step_silent [OF Cons.prems(1) e s1] .
  then show ?case using Cons.IH [OF _ es r] by simp
qed simp

theorem permission_not_granted_silent_witness:
  "permission (notif (demo_start\<lparr>notif := demo_notif\<lparr>permission := Perm_Denied\<rparr>\<rparr>)) \<noteq> Perm_Granted
   \<and> run [Add_Task ''a'', Timer_Fire 1] (demo_start\<lparr>notif := demo_notif\<lparr>permission := Perm_Denied\<rparr>\<rparr>)
       = Some (checkAndNotify (addTask ''a'' (demo_start\<lparr>notif := demo_notif\<lparr>permission := Perm_Denied\<rparr>\<rparr>)))
   \<and> shown (notif (checkAndNotify (addTask ''a'' (demo_start\<lparr>notif := demo_notif\<lparr>permission := Perm_Denied\<rparr>\<rparr>)))) = []"
proof -
  let ?s = "demo_start\<lparr>notif := demo_notif\<lparr>permission := Perm_Denied\<rparr>\<rparr>"
  have r: "run [Add_Task ''a'', Timer_Fire 1] ?s = Some (checkAndNotify (addTask ''a'' ?s))"
    using demo_start_timer by (simp add: addTask_eq todo_simps)
  have p: "permission (notif ?s) \<noteq> Perm_Granted" by simp
  show ?thesis
    using permission_not_granted_silent [OF p _ r] r p by (simp add: demo_notif_def)
qed

text \<open>Example: the completion message is not shown exactly once.  On this run the
  last pending task is moved to the done list, then the done list is reordered, and each
  of the two drops shows the message (C9 gives the general rule).\<close>

lemma completion_notice_repeats:
  "\<exists>s2 s3. drop demo_transfer (addTask ''Buy milk'' demo_start) = Some s2 \<and> tasks s2 = []
     \<and> drop \<lparr>previousContainer = Done_List, container = Done_List, previousIndex = 0, currentIndex = 0\<rparr> s2
         = Some s3
     \<and> reachable s3
     \<and> shown (notif s3) = [(''Todo List'', ''New Task added: Buy milk''),
         (''Todo List'', ''All tasks completed!''), (''Todo List'', ''All tasks completed!'')]"
proof -
  let ?ev = "\<lparr>previousContainer = Done_List, container = Done_List, previousIndex = 0, currentIndex = 0\<rparr>"
  let ?s1 = "addTask ''Buy milk'' demo_start"
  let ?s2 = "the (drop demo_transfer ?s1)"
  let ?s3 = "the (drop ?ev ?s2)"
  have d2: "drop demo_transfer ?s1 = Some ?s2" and d3: "drop ?ev ?s2 = Some ?s3"
    by (simp_all add: drop_eq)
  have r1: "reachable ?s1"
    by (rule reachable.step [OF reachable_demo_start, of "Add_Task ''Buy milk''"]) simp
  have r2: "reachable ?s2"
    by (rule reachable.step [OF r1, of "Drop demo_transfer"]) (simp only: step.simps, rule d2)
  have r3: "reachable ?s3"
    by (rule reachable.step [OF r2, of "Drop ?ev"]) (simp only: step.simps, rule d3)
  have n1: "notif ?s1 = demo_notif\<lparr>shown := [(''Todo List'', ''New Task added: Buy milk'')]\<rparr>"
    using demo_start_fields by (simp add: addTask_eq notify_def showNotification_def demo_notif_def todo_simps)
  have t2: "tasks ?s2 = []"
    using demo_start_fields
    by (simp add: drop_result_fields drop_moved_def demo_transfer_def addTask_eq todo_simps
        transferArrayItem_def clamp_def get_list_def set_list_def remove_at_def)
  then have n2: "notif ?s2 = demo_notif\<lparr>shown := [(''Todo List'', ''New Task added: Buy milk''),
                                          (''Todo List'', ''All tasks completed!'')]\<rparr>"
    using n1 by (simp add: drop_result_fields has_pending_tasks_def showNotification_def demo_notif_def
        drop_moved_def demo_transfer_def get_list_def set_list_def split: prod.split)
  have t3: "tasks ?s3 = []"
    using t2 by (simp add: drop_result_fields drop_moved_def todo_simps get_list_def set_list_def)
  have "shown (notif ?s3) = [(''Todo List'', ''New Task added: Buy milk''),
         (''Todo List'', ''All tasks completed!''), (''Todo List'', ''All tasks completed!'')]"
    using n2 t3 by (simp add: drop_result_fields has_pending_tasks_def showNotification_def demo_notif_def
        drop_moved_def get_list_def set_list_def)
  then show ?thesis using d2 d3 t2 r3 by blast
qed

end
