(* ===== verification/Spec2Isabelle.thy ===== *)
theory Spec2Isabelle
  imports Todo_Runs
begin

text \<open>
  Verification development of the Angular todo application (mansigodse2000/todo).

  \<^bold>\<open>The program.\<close>  Two source files.  src/src/app/todo/todo.component.ts holds
  \<open>TodoComponent\<close>: two arrays of task objects, \<open>tasks\<close> (pending) and \<open>done\<close>,
  the handlers \<open>ngOnInit\<close>, \<open>addTask\<close>, \<open>editTask\<close>, \<open>deleteTask\<close>,
  \<open>drop\<close>, \<open>updateNotificationInterval\<close>, \<open>restartNotificationInterval\<close>, and
  the private helpers \<open>checkAndNotify\<close> and \<open>updateLocalStorage\<close>.
  src/src/app/notification.service.ts holds \<open>NotificationService\<close> with
  \<open>showNotification\<close> and \<open>requestPermission\<close>.  Every handler that changes an
  array writes both arrays to \<open>localStorage\<close> as JSON.  \<open>ngOnInit\<close> reads them
  back, asks for notification permission, checks once for pending tasks and starts a
  repeating timer; the timer runs \<open>checkAndNotify\<close> every \<open>notificationInterval\<close>
  minutes, and \<open>updateNotificationInterval\<close> replaces it.

  \<^bold>\<open>Theories and what they model.\<close>
  \<^item> \<open>Todo_Prelude\<close>: \<open>Array.prototype.splice\<close> as \<open>remove_at\<close> and
    \<open>insert_at\<close>, \<open>indexOf\<close> as \<open>index_of\<close> (-1 when absent), and the list
    lemmas the components share (lengths, multisets, distinctness).
  \<^item> \<open>Json\<close>: \<open>JSON.stringify\<close> on the values the component stores, and
    \<open>JSON.parse\<close> as a recursive-descent parser with fuel; the round trip
    \<open>json_parse (json_stringify v) = Some v\<close>, where the fuel is the input length
    plus one.  Each call consumes input or descends, so this fuel is always enough.
  \<^item> \<open>Json_Syntax\<close>: the grammar of JSON texts (ECMA-404), which \<open>JSON.parse\<close>
    checks before it throws a \<open>SyntaxError\<close>.  It is a fuelled recogniser,
    \<open>json_valid\<close>, whose fuel of twice the length plus one is proved enough.  Every
    text the parser accepts is proved to be valid, so a parser failure on a valid
    text means only that the value is outside the model (e.g. \<open>[1.5]\<close>).
  \<^item> \<open>Task_Store\<close>: \<open>ITask\<close> (field \<open>done\<close> renamed \<open>task_done\<close>).  Task
    objects live on an explicit heap, and arrays are lists of references into it,
    because \<open>editTask\<close> mutates an object shared by reference.  The JSON form of the
    arrays, \<open>stored_list\<close>/\<open>restore\<close> (the reads in \<open>ngOnInit\<close>), and
    \<open>persist\<close> (the writes of \<open>updateLocalStorage\<close>).  A read yields
    \<open>Json_Syntax_Error\<close> exactly when the entry is not a JSON text.  It yields
    \<open>Unmodelled_Json\<close> for valid JSON whose value the model does not represent,
    and \<open>Not_Task_Array\<close> for a value that is not an array of tasks.  The last two
    mark where the model stops following the program.
  \<^item> \<open>Drag_Drop\<close>: the CDK helpers \<open>clamp\<close>, \<open>moveItemInArray\<close> and
    \<open>transferArrayItem\<close>.  The shifting loop \<open>move_loop\<close> is a
    \<^theory_text>\<open>partial_function (option)\<close>.  It is proved to always return the
    reference reorder \<open>move_ref\<close>: remove at the clamped source index, then insert
    at the clamped destination index.
  \<^item> \<open>Notification_Service\<close>: the browser Notification API as state (support,
    permission, pending permission requests, notifications shown, console) and the
    service's two methods.  The \<open>.then\<close> callback is the step
    \<open>permission_settled\<close>.
  \<^item> \<open>Browser_Timers\<close>: \<open>setInterval\<close>/\<open>clearInterval\<close>.  The delay is
    converted to a WebIDL \<open>long\<close> by \<open>sint\<close> on \<open>32 word\<close>, and a negative
    result is replaced by 0.
  \<^item> \<open>Todo_Component\<close>: the component state as the record \<open>todo_state\<close>, with
    one definition per handler, composed as the code composes them.  The
    \<open>event\<close> datatype and \<open>step\<close> cover what the page and the browser can
    deliver, and \<open>reachable\<close> is the inductive set of states reachable from
    \<open>ngOnInit\<close> on any storage and any Notification API state.  The invariant
    \<open>todo_inv\<close> is proved by rule induction.  It says that no task object is in two
    places, that the storage restores the current arrays, that exactly one timer is
    live with the converted delay of the interval, and that the interval is at least
    1.  The handlers' functional behaviour on every branch is proved here.
  \<^item> \<open>Todo_Runs\<close>: the interval and timer handlers, start-up on a stored or a
    corrupt storage, the pending-task check and the silence without permission over
    event sequences (\<open>run\<close>).  It also shows on concrete runs where the code and
    the specification disagree.
  \<^item> Also in \<open>Todo_Component\<close>: the specification's abstract machine on two
    sequences of task values, whose operations name tasks by position.  The
    refinement theorem \<open>step_refines\<close> says that dereferencing the arrays maps
    every step from a reachable state to the abstract operation of its event.
  \<^item> This theory: the specification's transfer scenario, which spans the CDK
    helper, \<open>drop\<close> and the timer callback.

  \<^bold>\<open>Witnesses.\<close>  The concrete states are a fresh start on an empty storage with
  notifications granted (\<open>demo_start\<close>) and the run that adds two tasks and drags
  the first to the done list (\<open>demo_state\<close>).  Both are proved reachable, and
  every property with a hypothesis is applied to them or to a run from them.

  \<^bold>\<open>Findings.\<close>  The interval coercion floors before it takes the magnitude
  (-3.7 gives 4, -5 gives 5), while the specification says 3 and 1.  An interval of
  35792 minutes or more overflows the 32-bit delay, and the timer fires with delay 0.
  The completion message repeats on every drop that leaves pending empty.  A stored
  entry that is not a JSON text makes \<open>ngOnInit\<close> throw instead of starting empty.  The pending check
  reads the \<open>done\<close> flags rather than testing for emptiness; the two agree while
  no flag is set.

  \<^bold>\<open>Not modelled.\<close>  The reactive form (\<open>FormBuilder\<close> group and
  \<open>todoForm.reset()\<close>): its value arrives as the parameter of \<open>addTask\<close>, and the
  template's \<open>Validators.required\<close> is not among the sources.  The \<open>prompt\<close>
  dialog: its answer is a parameter.  \<open>NaN\<close> in the number input.  The 4 ms
  clamping of nested timers.  Timer firing times: the model records the period, not a
  clock.  Angular change detection and bootstrap.  JSON values other than integers and
  8-bit strings (the component stores only strings and booleans), and stored values
  that are not arrays of tasks: JavaScript would assign them and carry on, while the
  model stops with \<open>Unmodelled_Json\<close> or \<open>Not_Task_Array\<close>.
\<close>

section \<open>The specification's transfer scenario\<close>

text \<open>C23: moving the last pending task to the end of the done list empties the pending
  list, appends the task to the done list, displays "All tasks completed!" once (when
  the browser shows notifications), and a later timer firing displays nothing.  This
  spans the CDK helper \<open>transferArrayItem\<close>, the handler \<open>drop\<close> and the timer
  callback \<open>checkAndNotify\<close>.\<close>

theorem last_task_transfer:
  assumes one: "tasks s = [r]"
    and d: "drop \<lparr>previousContainer = Tasks_List, container = Done_List, previousIndex = 0,
                   currentIndex = int (length (done_list s))\<rparr> s = Some s'"
  shows "tasks s' = [] \<and> done_list s' = done_list s @ [r]
     \<and> shown (notif s') = shown (notif s) @
         (if supported (notif s) \<and> permission (notif s) = Perm_Granted
          then [(''Todo List'', ''All tasks completed!'')] else [])
     \<and> (\<forall>h s''. step (Timer_Fire h) s' = Some s'' \<longrightarrow> shown (notif s'') = shown (notif s'))"
proof -
  let ?ev = "\<lparr>previousContainer = Tasks_List, container = Done_List, previousIndex = 0,
               currentIndex = int (length (done_list s))\<rparr>"
  have s': "s' = the (drop ?ev s)" using d by simp
  have tr: "transferArrayItem [r] (done_list s) 0 (int (length (done_list s))) = ([], done_list s @ [r])"
    by (simp add: transferArrayItem_def clamp_def remove_at_def insert_at_def)
  have m: "tasks (drop_moved ?ev s) = [] \<and> done_list (drop_moved ?ev s) = done_list s @ [r]"
    using one tr by (simp add: drop_moved_def get_list_def set_list_def)
  then have t: "tasks s' = []" and dl: "done_list s' = done_list s @ [r]"
    by (simp_all add: s' drop_result_fields)
  have np: "\<not> has_pending_tasks (drop_moved ?ev s)"
    using m by (simp add: has_pending_tasks_def)
  have n: "notif s' = showNotification ''All tasks completed!'' (notif s)"
    using np by (simp add: s' drop_result_fields)
  have tf: "\<forall>h s''. step (Timer_Fire h) s' = Some s'' \<longrightarrow> shown (notif s'') = shown (notif s')"
    using t by (simp add: checkAndNotify_def has_pending_tasks_def)
  show ?thesis
    using t dl n tf by (simp add: showNotification_shown)
qed

theorem last_task_transfer_witness:
  "tasks (addTask ''Buy milk'' demo_start) = [0]
   \<and> drop demo_transfer (addTask ''Buy milk'' demo_start)
       = Some (the (drop demo_transfer (addTask ''Buy milk'' demo_start)))
   \<and> done_list (the (drop demo_transfer (addTask ''Buy milk'' demo_start))) = [0]
   \<and> shown (notif (the (drop demo_transfer (addTask ''Buy milk'' demo_start)))) =
       [(''Todo List'', ''New Task added: Buy milk''), (''Todo List'', ''All tasks completed!'')]"
proof -
  let ?s = "addTask ''Buy milk'' demo_start"
  have t: "tasks ?s = [0]" and dn: "done_list ?s = []"
    using demo_start_fields by (simp_all add: addTask_eq todo_simps)
  have ev: "\<lparr>previousContainer = Tasks_List, container = Done_List, previousIndex = 0,
              currentIndex = int (length (done_list ?s))\<rparr> = demo_transfer"
    using dn by (simp add: demo_transfer_def)
  have d: "drop demo_transfer ?s = Some (the (drop demo_transfer ?s))"
    by (simp add: drop_eq)
  have n: "shown (notif ?s) = [(''Todo List'', ''New Task added: Buy milk'')]"
    using demo_start_fields by (simp add: addTask_eq todo_simps demo_notif_def)
  have p: "supported (notif ?s) \<and> permission (notif ?s) = Perm_Granted"
    using demo_start_fields by (simp add: addTask_eq notify_def demo_notif_def todo_simps)
  show ?thesis
    using last_task_transfer [OF t, of "the (drop demo_transfer ?s)"] ev d dn n p t by simp
qed

end
